theory Spec2Isabelle
  imports Main "HOL-Library.Multiset" "HOL-Library.Sublist"
begin

section \<open>Strings\<close>

text \<open>
  The program reads its strings rune by rune (\<^verbatim>\<open>for _, r := range text\<close>, the regular
  expressions, \<^verbatim>\<open>strings.TrimSpace\<close>, SQLite's \<^verbatim>\<open>LIKE\<close>), so a string is modelled as
  the sequence of its Unicode code points (a well-formed UTF-8 string).
\<close>

type_synonym rune = nat
type_synonym gostring = "rune list"

definition str :: "string \<Rightarrow> gostring" where
  "str s = map of_char s"

text \<open>
  \<^verbatim>\<open>unicode.IsSpace\<close>, the class \<^verbatim>\<open>strings.TrimSpace\<close> removes at both ends: tab, line feed,
  vertical tab, form feed, carriage return, space, U+0085, U+00A0 and, beyond Latin-1, the
  code points with the Unicode property White_Space (U+1680, U+2000..U+200A, U+2028,
  U+2029, U+202F, U+205F, U+3000).
\<close>

definition isSpace :: "rune \<Rightarrow> bool" where
  "isSpace r \<longleftrightarrow>
     r = 0x09 \<or> r = 0x0A \<or> r = 0x0B \<or> r = 0x0C \<or> r = 0x0D \<or> r = 0x20 \<or>
     r = 0x85 \<or> r = 0xA0 \<or> r = 0x1680 \<or> (0x2000 \<le> r \<and> r \<le> 0x200A) \<or>
     r = 0x2028 \<or> r = 0x2029 \<or> r = 0x202F \<or> r = 0x205F \<or> r = 0x3000"

definition trimBoth :: "(rune \<Rightarrow> bool) \<Rightarrow> gostring \<Rightarrow> gostring" where
  "trimBoth ws s = rev (dropWhile ws (rev (dropWhile ws s)))"

definition TrimSpace :: "gostring \<Rightarrow> gostring" where
  "TrimSpace s = trimBoth isSpace s"

section \<open>parseBNC (converter.go)\<close>

text \<open>
  \<^verbatim>\<open>strconv.Atoi\<close>: an optional sign, then one or more decimal digits, nothing else
  (a syntax error otherwise); the value must fit the \<^verbatim>\<open>int\<close> of a 64-bit platform (a
  range error otherwise). Its two errors are values of the model. \<^verbatim>\<open>1 << 30\<close> is
  \<open>2 ^ 30\<close>.
\<close>

datatype numError = ErrSyntax | ErrRange

definition isDigit :: "rune \<Rightarrow> bool" where
  "isDigit r \<longleftrightarrow> 0x30 \<le> r \<and> r \<le> 0x39"

fun digitsValue :: "nat \<Rightarrow> gostring \<Rightarrow> nat" where
  "digitsValue n [] = n"
| "digitsValue n (ch # s) = digitsValue (n * 10 + (ch - 0x30)) s"

definition Atoi :: "gostring \<Rightarrow> numError + int" where
  "Atoi s =
     (let neg = (s \<noteq> [] \<and> hd s = 0x2D);
          ds = (if s \<noteq> [] \<and> (hd s = 0x2B \<or> hd s = 0x2D) then tl s else s)
      in if ds = [] \<or> \<not> list_all isDigit ds then Inl ErrSyntax
         else let un = digitsValue 0 ds
              in if \<not> neg \<and> un \<ge> 2 ^ 63 then Inl ErrRange
                 else if neg \<and> un > 2 ^ 63 then Inl ErrRange
                 else Inr (if neg then - int un else int un))"

definition parseBNC :: "gostring \<Rightarrow> int" where
  "parseBNC bnc =
     (let bnc = TrimSpace bnc
      in if bnc = [] then 2 ^ 30
         else case Atoi bnc of
                Inl err \<Rightarrow> 2 ^ 30
              | Inr n \<Rightarrow> if n = 0 then 2 ^ 30 else n)"

text \<open>
  The two kinds of raw frequency the ranking distinguishes: \<open>unrankedRaw\<close> (empty after
  trimming, not an integer, or zero) and \<open>parsesAs raw n\<close> (the trimmed text is the
  integer \<open>n\<close>).
\<close>

definition unrankedRaw :: "gostring \<Rightarrow> bool" where
  "unrankedRaw raw \<longleftrightarrow>
     TrimSpace raw = [] \<or> (case Atoi (TrimSpace raw) of Inl err \<Rightarrow> True | Inr n \<Rightarrow> n = 0)"

definition parsesAs :: "gostring \<Rightarrow> int \<Rightarrow> bool" where
  "parsesAs raw n \<longleftrightarrow> Atoi (TrimSpace raw) = Inr n"

section \<open>Regular expressions (Go's regexp, as far as the program uses it)\<close>

text \<open>
  The two patterns of \<^verbatim>\<open>extractChineseWords\<close> are built from character classes,
  concatenation, alternation and repetition. Capture groups do not change what is matched
  and are left out. Go's regexp returns the leftmost match and, among the matches at that
  position, the one a backtracking search finds first: \<open>matches re s\<close> lists, in the
  order of that search, what is left of \<open>s\<close> after each way of matching \<open>re\<close> at
  its start (a repetition takes as much as it can first, an alternation tries its left
  branch first).
\<close>

datatype regex =
    Class "rune \<Rightarrow> bool"
  | Concat regex regex
  | Alternate regex regex
  | Star regex

fun matches :: "regex \<Rightarrow> gostring \<Rightarrow> gostring list" where
  "matches (Class p) s = (case s of [] \<Rightarrow> [] | c # cs \<Rightarrow> if p c then [cs] else [])"
| "matches (Concat a b) s = concat (map (matches b) (matches a s))"
| "matches (Alternate a b) s = matches a s @ matches b s"
| "matches (Star a) s =
     concat (map (\<lambda>r. if length r < length s then matches (Star a) r else []) (matches a s)) @ [s]"

definition Plus :: "regex \<Rightarrow> regex" where
  "Plus a = Concat a (Star a)"

text \<open>
  \<open>findMatch\<close> gives the text before the leftmost match and the text after it.
  \<^verbatim>\<open>ReplaceAllString\<close> and \<^verbatim>\<open>Split\<close> (with \<^verbatim>\<open>n = -1\<close>) go from match to match,
  each search starting where the last match ended. Neither pattern of the program matches
  the empty string (\<open>matches_bracket_length\<close>, \<open>matches_separators_length\<close>), so
  the library's rule for stepping over an empty match is not modelled: the scan ends
  there.
\<close>

fun findMatch :: "regex \<Rightarrow> gostring \<Rightarrow> (gostring \<times> gostring) option" where
  "findMatch re [] = (case matches re [] of r # _ \<Rightarrow> Some ([], r) | [] \<Rightarrow> None)"
| "findMatch re (c # cs) =
     (case matches re (c # cs) of
        r # _ \<Rightarrow> Some ([], r)
      | [] \<Rightarrow> map_option (\<lambda>(pre, post). (c # pre, post)) (findMatch re cs))"

fun ReplaceAllString :: "regex \<Rightarrow> gostring \<Rightarrow> gostring \<Rightarrow> gostring" where
  "ReplaceAllString re src repl =
     (case findMatch re src of
        None \<Rightarrow> src
      | Some (pre, post) \<Rightarrow>
          if length post < length src then pre @ repl @ ReplaceAllString re post repl
          else src)"

fun Split :: "regex \<Rightarrow> gostring \<Rightarrow> gostring list" where
  "Split re s =
     (case findMatch re s of
        None \<Rightarrow> [s]
      | Some (pre, post) \<Rightarrow>
          if length post < length s then pre # Split re post else [s])"

section \<open>extractChineseWords and isAllChinese (converter.go)\<close>

text \<open>
  \<^verbatim>\<open>\[([^\]]*)\]|\(([^)]*)\)\<close>: U+005B, U+005D, U+0028, U+0029.
  \<^verbatim>\<open>[,\uFF0C\u3001;\uFF1B\s]+\<close>, where \<^verbatim>\<open>\s\<close> is the class of tab, line feed, form
  feed, carriage return and space.
\<close>

definition bracketRegex :: regex where
  "bracketRegex =
     Alternate
       (Concat (Class (\<lambda>r. r = 0x5B)) (Concat (Star (Class (\<lambda>r. r \<noteq> 0x5D))) (Class (\<lambda>r. r = 0x5D))))
       (Concat (Class (\<lambda>r. r = 0x28)) (Concat (Star (Class (\<lambda>r. r \<noteq> 0x29))) (Class (\<lambda>r. r = 0x29))))"

definition perlSpace :: "rune \<Rightarrow> bool" where
  "perlSpace r \<longleftrightarrow> r = 0x09 \<or> r = 0x0A \<or> r = 0x0C \<or> r = 0x0D \<or> r = 0x20"

definition separators :: regex where
  "separators =
     Plus (Class (\<lambda>r. r = 0x2C \<or> r = 0xFF0C \<or> r = 0x3001 \<or> r = 0x3B \<or> r = 0xFF1B \<or> perlSpace r))"

text \<open>
  The table \<^verbatim>\<open>unicode.Han\<close> belongs to Go's library, not to the repository: it is the
  parameter \<open>han\<close>. The two other runes accepted are U+00B7 and U+2014.
\<close>

fun allChineseRunes :: "(rune \<Rightarrow> bool) \<Rightarrow> gostring \<Rightarrow> bool" where
  "allChineseRunes han [] = True"
| "allChineseRunes han (r # text) =
     (if \<not> han r \<and> r \<noteq> 0xB7 \<and> r \<noteq> 0x2014 then False else allChineseRunes han text)"

definition isAllChinese :: "(rune \<Rightarrow> bool) \<Rightarrow> gostring \<Rightarrow> bool" where
  "isAllChinese han text = (if text = [] then False else allChineseRunes han text)"

fun keepChinese :: "(rune \<Rightarrow> bool) \<Rightarrow> gostring list \<Rightarrow> gostring list" where
  "keepChinese han [] = []"
| "keepChinese han (part # parts) =
     (let part = TrimSpace part
      in if part = [] then keepChinese han parts
         else if isAllChinese han part then part # keepChinese han parts
         else keepChinese han parts)"

definition extractChineseWords :: "(rune \<Rightarrow> bool) \<Rightarrow> gostring \<Rightarrow> gostring list" where
  "extractChineseWords han translation =
     (let cleanTranslation = ReplaceAllString bracketRegex translation [];
          parts = Split separators cleanTranslation
      in keepChinese han parts)"

text \<open>
  The ranges of \<^verbatim>\<open>unicode.Han\<close> in Go's tables for Unicode 15, for running the
  program on concrete text.
\<close>

definition inRange :: "rune \<Rightarrow> rune \<Rightarrow> rune \<Rightarrow> bool" where
  "inRange lo hi r \<longleftrightarrow> lo \<le> r \<and> r \<le> hi"

definition unicodeHan :: "rune \<Rightarrow> bool" where
  "unicodeHan r \<longleftrightarrow>
     inRange 0x2E80 0x2E99 r \<or> inRange 0x2E9B 0x2EF3 r \<or> inRange 0x2F00 0x2FD5 r \<or>
     r = 0x3005 \<or> r = 0x3007 \<or> inRange 0x3021 0x3029 r \<or> inRange 0x3038 0x303B r \<or>
     inRange 0x3400 0x4DBF r \<or> inRange 0x4E00 0x9FFF r \<or> inRange 0xF900 0xFA6D r \<or>
     inRange 0xFA70 0xFAD9 r \<or> inRange 0x16FE2 0x16FE3 r \<or> inRange 0x16FF0 0x16FF1 r \<or>
     inRange 0x20000 0x2A6DF r \<or> inRange 0x2A700 0x2B739 r \<or> inRange 0x2B740 0x2B81D r \<or>
     inRange 0x2B820 0x2CEA1 r \<or> inRange 0x2CEB0 0x2EBE0 r \<or> inRange 0x2F800 0x2FA1D r \<or>
     inRange 0x30000 0x3134A r \<or> inRange 0x31350 0x323AF r"

section \<open>Gloss extraction as the specification words it\<close>

text \<open>
  Remove the bracket spans, split on the separator characters, trim each fragment, keep the
  fragments that are not empty and consist of ideographs, U+00B7 and U+2014. A span starts
  at an opening bracket that has a closing bracket of its kind somewhere after it, and ends
  at the nearest one. The specification speaks of whitespace without saying which: the
  class that splits (\<open>splitWs\<close>) and the class that is trimmed (\<open>trimWs\<close>) are
  parameters.
\<close>

fun spanEnd :: "rune \<Rightarrow> gostring \<Rightarrow> gostring option" where
  "spanEnd close [] = None"
| "spanEnd close (c # cs) = (if c = close then Some cs else spanEnd close cs)"

function stripSpans :: "gostring \<Rightarrow> gostring" where
  "stripSpans [] = []"
| "stripSpans (c # cs) =
     (case (if c = 0x5B then spanEnd 0x5D cs else if c = 0x28 then spanEnd 0x29 cs else None) of
        Some rest \<Rightarrow> stripSpans rest
      | None \<Rightarrow> c # stripSpans cs)"
  by pat_completeness auto
termination
proof (relation "measure length")
  show "wf (measure length)"
    by simp
next
  fix c :: rune and cs rest :: gostring
  assume a: "(if c = 0x5B then spanEnd 0x5D cs else if c = 0x28 then spanEnd 0x29 cs else None)
             = Some rest"
  have "length r \<le> length t" if "spanEnd close t = Some r" for close t r
    using that by (induction t) (auto split: if_splits)
  with a have "length rest \<le> length cs"
    by (auto split: if_splits)
  then show "(rest, c # cs) \<in> measure length"
    by simp
next
  fix c :: rune and cs :: gostring
  show "(cs, c # cs) \<in> measure length"
    by simp
qed

definition isSeparator :: "(rune \<Rightarrow> bool) \<Rightarrow> rune \<Rightarrow> bool" where
  "isSeparator ws r \<longleftrightarrow>
     r = 0x2C \<or> r = 0xFF0C \<or> r = 0x3001 \<or> r = 0x3B \<or> r = 0xFF1B \<or> ws r"

function splitOn :: "(rune \<Rightarrow> bool) \<Rightarrow> gostring \<Rightarrow> gostring list" where
  "splitOn sep s =
     (case dropWhile (\<lambda>r. \<not> sep r) s of
        [] \<Rightarrow> [s]
      | c # cs \<Rightarrow> takeWhile (\<lambda>r. \<not> sep r) s # splitOn sep (dropWhile sep cs))"
  by pat_completeness auto
termination
proof (relation "measure (\<lambda>(sep, s). length s)")
  show "wf (measure (\<lambda>(sep, s). length s))"
    by simp
next
  fix sep :: "rune \<Rightarrow> bool" and s :: gostring and c cs
  assume a: "dropWhile (\<lambda>r. \<not> sep r) s = c # cs"
  have "length (dropWhile sep cs) \<le> length cs"
    by (rule length_dropWhile_le)
  also have "length cs < length (dropWhile (\<lambda>r. \<not> sep r) s)"
    using a by simp
  also have "\<dots> \<le> length s"
    by (rule length_dropWhile_le)
  finally show "((sep, dropWhile sep cs), (sep, s)) \<in> measure (\<lambda>(sep, s). length s)"
    by simp
qed

definition glossFragments :: "(rune \<Rightarrow> bool) \<Rightarrow> (rune \<Rightarrow> bool) \<Rightarrow> (rune \<Rightarrow> bool) \<Rightarrow> gostring \<Rightarrow> gostring list" where
  "glossFragments splitWs trimWs han translation =
     filter (\<lambda>f. f \<noteq> [] \<and> (\<forall>r \<in> set f. han r \<or> r = 0xB7 \<or> r = 0x2014))
       (map (trimBoth trimWs) (splitOn (isSeparator splitWs) (stripSpans translation)))"

section \<open>Reading the corpus (converter.go)\<close>

text \<open>
  After the header, \<^verbatim>\<open>reader.Read\<close> is called until it returns \<^verbatim>\<open>io.EOF\<close>. The file is
  modelled by the results of these calls before the end of file: a record, or an error of
  the CSV reader for that row. A record is the list of its fields.
\<close>

datatype csvError = ParseError

type_synonym csvRecord = "gostring list"
type_synonym readResult = "csvError + csvRecord"

fun readAllEnglish :: "readResult list \<Rightarrow> csvRecord list" where
  "readAllEnglish [] = []"
| "readAllEnglish (Inl err # rest) = readAllEnglish rest"
| "readAllEnglish (Inr record # rest) =
     (if length record \<ge> 13 then record # readAllEnglish rest else readAllEnglish rest)"

fun readAllChinese :: "readResult list \<Rightarrow> csvRecord list" where
  "readAllChinese [] = []"
| "readAllChinese (Inl err # rest) = readAllChinese rest"
| "readAllChinese (Inr record # rest) =
     (if length record \<ge> 13 \<and> record ! 3 \<noteq> [] then record # readAllChinese rest
      else readAllChinese rest)"

text \<open>
  The values \<^verbatim>\<open>CreateEnglishDB\<close> binds to
  \<^verbatim>\<open>INSERT INTO words (word, phonetic, definition, translation, bnc)\<close> for a record.
  The records read have 13 fields or more, so the indices are in range.
\<close>

record wordsRow =
  col_word :: gostring
  col_phonetic :: gostring
  col_definition :: gostring
  col_translation :: gostring
  col_bnc :: gostring

definition insertArgs :: "csvRecord \<Rightarrow> wordsRow" where
  "insertArgs record =
     \<lparr>col_word = record ! 0, col_phonetic = record ! 1, col_definition = record ! 2,
      col_translation = record ! 3, col_bnc = record ! 8\<rparr>"

section \<open>The reverse index (CreateChineseDB, converter.go)\<close>

text \<open>
  \<^verbatim>\<open>chineseMap\<close> is a map of maps; the two nested loops are two folds, and
  \<open>addTranslation\<close> is the body of the inner one. \<^verbatim>\<open>bncMap\<close> is filled by a third loop.
  The records of \<^verbatim>\<open>allRecords\<close> come from \<open>readAllChinese\<close> and have 13 fields or
  more, so the indices 0, 3 and 8 are in range.
\<close>

type_synonym engMap = "gostring \<rightharpoonup> gostring"
type_synonym chineseMap = "gostring \<rightharpoonup> engMap"

definition addTranslation :: "gostring \<Rightarrow> gostring \<Rightarrow> chineseMap \<Rightarrow> gostring \<Rightarrow> chineseMap" where
  "addTranslation englishWord translation chineseMap chWord =
     (let chineseMap = (if chineseMap chWord = None then chineseMap(chWord \<mapsto> Map.empty)
                        else chineseMap)
      in case chineseMap chWord of
           None \<Rightarrow> chineseMap
         | Some m \<Rightarrow>
             if m englishWord = None then chineseMap(chWord \<mapsto> m(englishWord \<mapsto> translation))
             else chineseMap)"

definition addRecord :: "(rune \<Rightarrow> bool) \<Rightarrow> chineseMap \<Rightarrow> csvRecord \<Rightarrow> chineseMap" where
  "addRecord han chineseMap record =
     (let englishWord = record ! 0;
          translation = record ! 3;
          chineseWords = extractChineseWords han translation
      in foldl (addTranslation englishWord translation) chineseMap chineseWords)"

definition buildChineseMap :: "(rune \<Rightarrow> bool) \<Rightarrow> csvRecord list \<Rightarrow> chineseMap" where
  "buildChineseMap han allRecords = foldl (addRecord han) Map.empty allRecords"

definition addBnc :: "(gostring \<rightharpoonup> int) \<Rightarrow> csvRecord \<Rightarrow> (gostring \<rightharpoonup> int)" where
  "addBnc bncMap record =
     (let englishWord = record ! 0
      in if bncMap englishWord = None then bncMap(englishWord \<mapsto> parseBNC (record ! 8))
         else bncMap)"

definition buildBncMap :: "csvRecord list \<Rightarrow> (gostring \<rightharpoonup> int)" where
  "buildBncMap allRecords = foldl addBnc Map.empty allRecords"

text \<open>
  The loop over one gloss's \<^verbatim>\<open>engMap\<close>. Go leaves the order in which \<^verbatim>\<open>range\<close> visits
  a map unspecified: \<open>rangeOver m kvs\<close> says that \<open>kvs\<close> is one such visit, every
  key of \<open>m\<close> once with its value. \<^verbatim>\<open>sort.Slice\<close> is documented as not stable:
  \<open>sortSliceResult\<close> is its contract, a rearrangement in which no element is followed
  by one that \<^verbatim>\<open>less\<close> puts before it. A run of the loop body for the gloss
  \<open>chWord\<close> is then described by \<open>rowWritten\<close>: the visit \<open>kvs\<close>, the sorted
  \<^verbatim>\<open>engList\<close> and the string passed to the \<^verbatim>\<open>INSERT\<close> statement as
  \<^verbatim>\<open>english_words\<close>.
\<close>

record engInfo =
  info_word :: gostring
  info_def :: gostring
  info_bnc :: int

definition rangeOver :: "('k \<rightharpoonup> 'v) \<Rightarrow> ('k \<times> 'v) list \<Rightarrow> bool" where
  "rangeOver m kvs \<longleftrightarrow> distinct (map fst kvs) \<and> map_of kvs = m"

definition engListOf :: "(gostring \<rightharpoonup> int) \<Rightarrow> (gostring \<times> gostring) list \<Rightarrow> engInfo list" where
  "engListOf bncMap kvs =
     map (\<lambda>(engWord, cnTranslation).
            \<lparr>info_word = engWord, info_def = cnTranslation,
             info_bnc = (case bncMap engWord of Some b \<Rightarrow> b | None \<Rightarrow> 2 ^ 30)\<rparr>) kvs"

definition sortSliceResult :: "engInfo list \<Rightarrow> engInfo list \<Rightarrow> bool" where
  "sortSliceResult engList result \<longleftrightarrow>
     mset result = mset engList \<and> sorted_wrt (\<lambda>a b. \<not> info_bnc b < info_bnc a) result"

definition entry :: "engInfo \<Rightarrow> gostring" where
  "entry info = info_word info @ [0xFF08] @ info_def info @ [0xFF09]"

fun Join :: "gostring list \<Rightarrow> gostring \<Rightarrow> gostring" where
  "Join [] sep = []"
| "Join [e] sep = e"
| "Join (e # es) sep = e @ sep @ Join es sep"

definition rowWritten ::
  "(rune \<Rightarrow> bool) \<Rightarrow> csvRecord list \<Rightarrow> gostring \<Rightarrow> (gostring \<times> gostring) list \<Rightarrow> engInfo list \<Rightarrow> gostring \<Rightarrow> bool" where
  "rowWritten han allRecords chWord kvs engList englishWords \<longleftrightarrow>
     (case buildChineseMap han allRecords chWord of
        None \<Rightarrow> False
      | Some engMap \<Rightarrow>
          rangeOver engMap kvs
          \<and> sortSliceResult (engListOf (buildBncMap allRecords) kvs) engList
          \<and> englishWords = Join (map entry engList) [0x0A])"

section \<open>What the specification says of the reverse index\<close>

text \<open>
  \<open>lookupPair\<close> reads the translation stored for a pair of gloss and source word. A
  record \<open>observes\<close> the pair when its word is the source word and the gloss is among
  the glosses of its translation; \<open>firstTranslation\<close> is the translation of the first
  record of the corpus that observes the pair, \<open>observedAt\<close> the position of that record,
  and \<open>frequencyRank\<close> the rank parsed from the first record of the source word.
\<close>

definition lookupPair :: "chineseMap \<Rightarrow> gostring \<Rightarrow> gostring \<Rightarrow> gostring option" where
  "lookupPair cm chWord englishWord = (case cm chWord of None \<Rightarrow> None | Some m \<Rightarrow> m englishWord)"

definition observes :: "(rune \<Rightarrow> bool) \<Rightarrow> gostring \<Rightarrow> gostring \<Rightarrow> csvRecord \<Rightarrow> bool" where
  "observes han chWord englishWord record \<longleftrightarrow>
     record ! 0 = englishWord \<and> chWord \<in> set (extractChineseWords han (record ! 3))"

definition firstTranslation :: "(rune \<Rightarrow> bool) \<Rightarrow> csvRecord list \<Rightarrow> gostring \<Rightarrow> gostring \<Rightarrow> gostring option" where
  "firstTranslation han allRecords chWord englishWord =
     map_option (\<lambda>record. record ! 3) (find (observes han chWord englishWord) allRecords)"

definition frequencyRank :: "csvRecord list \<Rightarrow> gostring \<Rightarrow> int option" where
  "frequencyRank allRecords englishWord =
     map_option (\<lambda>record. parseBNC (record ! 8)) (find (\<lambda>record. record ! 0 = englishWord) allRecords)"

definition observedAt :: "(rune \<Rightarrow> bool) \<Rightarrow> csvRecord list \<Rightarrow> gostring \<Rightarrow> gostring \<Rightarrow> nat" where
  "observedAt han allRecords chWord englishWord =
     length (takeWhile (\<lambda>record. \<not> observes han chWord englishWord record) allRecords)"

text \<open>The rows the CSV reader parsed without an error, in the order of the file.\<close>

definition parsedRows :: "readResult list \<Rightarrow> csvRecord list" where
  "parsedRows reads = concat (map (\<lambda>res. case res of Inl err \<Rightarrow> [] | Inr record \<Rightarrow> [record]) reads)"

text \<open>
  Small corpora for running the builder: a row of 13 fields with a word, a translation and
  a raw frequency. U+597D and U+7F8E are ideographs.
\<close>

definition rec13 :: "gostring \<Rightarrow> gostring \<Rightarrow> gostring \<Rightarrow> csvRecord" where
  "rec13 w tr b = [w, [], [], tr, [], [], [], [], b, [], [], [], []]"

definition corpus2 :: "csvRecord list" where
  "corpus2 = [rec13 (str ''a'') [0x597D] (str ''5''), rec13 (str ''b'') [0x597D] (str ''5'')]"

definition corpus3 :: "csvRecord list" where
  "corpus3 = [rec13 (str ''a'') [0x597D] (str ''5''), rec13 (str ''b'') [0x597D] (str ''5''),
              rec13 (str ''c'') [0x597D, 0x2C, 0x7F8E] (str ''7'')]"

definition corpusTwice :: "csvRecord list" where
  "corpusTwice = [rec13 (str ''a'') [0x597D] (str ''5''),
                  rec13 (str ''a'') [0x597D, 0x2C, 0x7F8E] (str ''9'')]"

definition corpusUnranked :: "csvRecord list" where
  "corpusUnranked = [rec13 (str ''a'') [0x597D] (str ''5''), rec13 (str ''b'') [0x597D] (str ''0''),
                     rec13 (str ''c'') [0x597D] []]"

text \<open>
  Corpora with a negative frequency: in \<open>corpusNegative\<close> the word \<^verbatim>\<open>a\<close> has the
  frequency 5 in its first record and \<^verbatim>\<open>-7\<close> in its second, the one with the gloss
  U+597D; in \<open>corpusNegativeFirst\<close> the first record of \<^verbatim>\<open>a\<close> has the frequency
  \<^verbatim>\<open>-7\<close> between two spaces. \<open>corpusDistinct\<close> has three words of three ranks.
\<close>

definition corpusNegative :: "csvRecord list" where
  "corpusNegative = [rec13 (str ''a'') [0x7F8E] (str ''5''), rec13 (str ''a'') [0x597D] (str ''-7''),
                     rec13 (str ''b'') [0x597D] (str ''3'')]"

definition corpusNegativeFirst :: "csvRecord list" where
  "corpusNegativeFirst =
     [rec13 (str ''a'') [0x597D] (str '' -7 ''), rec13 (str ''b'') [0x597D] (str ''3''),
      rec13 (str ''c'') [0x597D] []]"

definition corpusDistinct :: "csvRecord list" where
  "corpusDistinct = [rec13 (str ''a'') [0x597D] (str ''9''), rec13 (str ''b'') [0x597D] (str ''3''),
                     rec13 (str ''c'') [0x597D] (str ''7'')]"

text \<open>
  Two files: one row of 13 fields with an empty translation; and a good row, a row the
  reader rejects, a row of three fields and a row with an empty translation.
\<close>

definition emptyTranslationReads :: "readResult list" where
  "emptyTranslationReads = [Inr (rec13 (str ''a'') [] (str ''5''))]"

definition mixedReads :: "readResult list" where
  "mixedReads =
     [Inr (rec13 (str ''a'') [0x597D] (str ''5'')), Inl ParseError, Inr [str ''b'', [], []],
      Inr (rec13 (str ''c'') [] (str ''7''))]"

section \<open>The store (SQLite, as far as the search uses it)\<close>

text \<open>
  The three statements of a search differ in their \<^verbatim>\<open>WHERE\<close> clause only. SQLite's
  \<^verbatim>\<open>LIKE\<close>, with no \<^verbatim>\<open>ESCAPE\<close> clause and the default setting (the program sets no
  \<^verbatim>\<open>case_sensitive_like\<close>): in the pattern \<^verbatim>\<open>%\<close> (U+0025) stands for any run of
  characters and \<^verbatim>\<open>_\<close> (U+005F) for any one character; any other character matches
  itself, the letters A to Z and a to z without regard to case. \<open>like pat s\<close> is
  \<^verbatim>\<open>s LIKE pat\<close>. The comparisons \<^verbatim>\<open>=\<close> and \<^verbatim>\<open>!=\<close> are exact.
\<close>

definition toLowerAscii :: "rune \<Rightarrow> rune" where
  "toLowerAscii r = (if 0x41 \<le> r \<and> r \<le> 0x5A then r + 0x20 else r)"

fun like :: "gostring \<Rightarrow> gostring \<Rightarrow> bool" where
  "like [] s = (s = [])"
| "like (p # ps) [] = (p = 0x25 \<and> like ps [])"
| "like (p # ps) (c # cs) =
     (if p = 0x25 then like ps (c # cs) \<or> like (p # ps) cs
      else (p = 0x5F \<or> toLowerAscii p = toLowerAscii c) \<and> like ps cs)"

text \<open>
  \<^verbatim>\<open>col = ?\<close>, \<^verbatim>\<open>col LIKE ? AND col != ?\<close> and \<^verbatim>\<open>col LIKE ? AND col NOT LIKE ?\<close>, for the
  column \<^verbatim>\<open>word\<close> of \<^verbatim>\<open>words\<close> or \<^verbatim>\<open>chinese\<close> of \<^verbatim>\<open>chinese_words\<close>.
\<close>

datatype whereClause =
    Equals gostring
  | LikeButNot gostring gostring
  | LikeNotLike gostring gostring

fun satisfies :: "whereClause \<Rightarrow> gostring \<Rightarrow> bool" where
  "satisfies (Equals k) key = (key = k)"
| "satisfies (LikeButNot pat k) key = (like pat key \<and> key \<noteq> k)"
| "satisfies (LikeNotLike pat pat') key = (like pat key \<and> \<not> like pat' key)"

text \<open>
  A database handle answers \<^verbatim>\<open>Query\<close> with an error (\<open>None\<close>) or with rows; scanning
  a row gives its key, or an error (\<open>None\<close>). SQL fixes no order of the rows of a
  \<^verbatim>\<open>SELECT\<close> without \<^verbatim>\<open>ORDER BY\<close>, so a store is any such function, and \<open>sqlStore\<close>
  is what the statements guarantee: at most \<^verbatim>\<open>LIMIT\<close> rows, each satisfying the
  \<^verbatim>\<open>WHERE\<close> clause. \<open>tableStore keys\<close> is the store that scans a table holding
  \<open>keys\<close> in that order and never fails.
\<close>

type_synonym store = "whereClause \<Rightarrow> nat \<Rightarrow> gostring option list option"

definition sqlStore :: "store \<Rightarrow> bool" where
  "sqlStore db \<longleftrightarrow>
     (\<forall>q n rows. db q n = Some rows \<longrightarrow>
        length rows \<le> n \<and> (\<forall>key. Some key \<in> set rows \<longrightarrow> satisfies q key))"

definition tableStore :: "gostring list \<Rightarrow> store" where
  "tableStore keys q n = Some (map Some (take n (filter (satisfies q) keys)))"

section \<open>searchEnglish and searchChinese (main.go)\<close>

text \<open>
  \<open>scanRows\<close> is the loop over \<^verbatim>\<open>rows.Next()\<close>, on the pair of \<^verbatim>\<open>results\<close> and
  \<^verbatim>\<open>seen\<close>; \<open>runQuery\<close> is one \<^verbatim>\<open>Query\<close> with its \<^verbatim>\<open>if err == nil\<close>.
\<close>

fun scanRows :: "gostring option list \<Rightarrow> gostring list \<times> gostring set \<Rightarrow> gostring list \<times> gostring set" where
  "scanRows [] (results, seen) = (results, seen)"
| "scanRows (None # rows) (results, seen) = scanRows rows (results, seen)"
| "scanRows (Some word # rows) (results, seen) =
     (if word \<notin> seen then scanRows rows (results @ [word], insert word seen)
      else scanRows rows (results, seen))"

definition runQuery :: "store \<Rightarrow> whereClause \<Rightarrow> nat \<Rightarrow> gostring list \<times> gostring set \<Rightarrow> gostring list \<times> gostring set" where
  "runQuery db q limit st = (case db q limit of None \<Rightarrow> st | Some rows \<Rightarrow> scanRows rows st)"

definition searchEnglish :: "store \<Rightarrow> gostring \<Rightarrow> gostring list" where
  "searchEnglish englishDB keyword =
     (let limit = 100;
          st = runQuery englishDB (Equals keyword) limit ([], {})
      in if length (fst st) \<ge> limit then fst st
         else
           let remaining = limit - length (fst st);
               st = runQuery englishDB (LikeButNot (keyword @ [0x25]) keyword) remaining st
           in if length (fst st) \<ge> limit then fst st
              else
                let remaining = limit - length (fst st);
                    st = runQuery englishDB
                           (LikeNotLike ([0x25] @ keyword @ [0x25]) (keyword @ [0x25])) remaining st
                in fst st)"

definition searchChinese :: "store \<Rightarrow> gostring \<Rightarrow> gostring list" where
  "searchChinese chineseDB keyword =
     (let limit = 100;
          st = runQuery chineseDB (Equals keyword) limit ([], {})
      in if length (fst st) \<ge> limit then fst st
         else
           let remaining = limit - length (fst st);
               st = runQuery chineseDB (LikeButNot (keyword @ [0x25]) keyword) remaining st
           in if length (fst st) \<ge> limit then fst st
              else
                let remaining = limit - length (fst st);
                    st = runQuery chineseDB
                           (LikeNotLike ([0x25] @ keyword @ [0x25]) (keyword @ [0x25])) remaining st
                in fst st)"

section \<open>The tiers of a search result\<close>

text \<open>
  The tier of a key for a query as the specification words it, with the strings first
  normalised by \<open>norm\<close>: 0 for a key equal to the query, 1 for a key that starts with it,
  2 for a key that contains it, 3 for any other key. \<open>tierOf id\<close> compares the strings
  as they are, \<open>tierOf foldCase\<close> without regard to the case of ASCII letters.
  \<open>storeTier\<close> is the tier by the store's own tests.
\<close>

definition foldCase :: "gostring \<Rightarrow> gostring" where
  "foldCase s = map toLowerAscii s"

definition tierOf :: "(gostring \<Rightarrow> gostring) \<Rightarrow> gostring \<Rightarrow> gostring \<Rightarrow> nat" where
  "tierOf norm query key =
     (if key = query then 0
      else if prefix (norm query) (norm key) then 1
      else if sublist (norm query) (norm key) then 2
      else 3)"

definition noWildcard :: "gostring \<Rightarrow> bool" where
  "noWildcard query \<longleftrightarrow> 0x25 \<notin> set query \<and> 0x5F \<notin> set query"

definition storeTier :: "gostring \<Rightarrow> gostring \<Rightarrow> nat" where
  "storeTier query key =
     (if key = query then 0
      else if like (query @ [0x25]) key then 1
      else if like ([0x25] @ query @ [0x25]) key then 2
      else 3)"

section \<open>The search history (main.go)\<close>

definition maxHistorySize :: nat where
  "maxHistorySize = 20"

text \<open>The scan of \<^verbatim>\<open>addToHistory\<close> splices out the first occurrence and breaks.\<close>

fun removeFirst :: "gostring \<Rightarrow> gostring list \<Rightarrow> gostring list" where
  "removeFirst word [] = []"
| "removeFirst word (w # ws) = (if w = word then ws else w # removeFirst word ws)"

definition addToHistory :: "gostring \<Rightarrow> gostring list \<Rightarrow> gostring list" where
  "addToHistory word searchHistory =
     (let h = [word] @ removeFirst word searchHistory
      in if length h > maxHistorySize then take maxHistorySize h else h)"

definition historyInv :: "gostring list \<Rightarrow> bool" where
  "historyInv h \<longleftrightarrow> distinct h \<and> length h \<le> maxHistorySize"

section \<open>Properties of parseBNC\<close>

lemmas parse_eval =
  TrimSpace_def trimBoth_def str_def isSpace_def Atoi_def isDigit_def parseBNC_def
  unrankedRaw_def parsesAs_def Let_def

lemma Atoi_empty: "Atoi [] = Inl ErrSyntax"
  by (simp add: Atoi_def)

lemma parseBNC_unranked: "unrankedRaw raw \<Longrightarrow> parseBNC raw = 2 ^ 30"
  by (auto simp: unrankedRaw_def parseBNC_def Let_def split: sum.splits)

lemma parseBNC_parsesAs: "parsesAs raw n \<Longrightarrow> n \<noteq> 0 \<Longrightarrow> parseBNC raw = n"
  by (auto simp: parsesAs_def parseBNC_def Let_def Atoi_empty split: sum.splits)

lemma parseBNC_cases: "unrankedRaw raw \<or> (\<exists>n. n \<noteq> 0 \<and> parsesAs raw n)"
  by (auto simp: unrankedRaw_def parsesAs_def split: sum.splits)

text \<open>
  The sentinel below \<open>2 ^ 30\<close>: a raw frequency that is empty after trimming, zero or
  not an integer gets the one rank \<open>2 ^ 30\<close> (\<open>parseBNC\<close> is a total function into
  the integers, it has no error result), and such a record ranks after every record whose
  raw frequency is a positive integer below \<open>2 ^ 30\<close>.
\<close>

lemma parseBNC_sentinel_below:
  assumes "unrankedRaw raw"
  shows "parseBNC raw = 2 ^ 30
       \<and> (\<forall>other n. parsesAs other n \<and> 0 < n \<and> n < 2 ^ 30 \<longrightarrow>
             parseBNC other = n \<and> parseBNC other < parseBNC raw)"
  using assms by (auto simp: parseBNC_unranked parseBNC_parsesAs)

lemma parseBNC_sentinel_below_example:
  "unrankedRaw (str ''n/a'') \<and> parsesAs (str '' 25'') 25
   \<and> parseBNC (str ''n/a'') = 2 ^ 30
   \<and> parseBNC (str '' 25'') < parseBNC (str ''n/a'')"
proof -
  have u: "unrankedRaw (str ''n/a'')"
    by (simp add: parse_eval)
  have p: "parsesAs (str '' 25'') 25"
    by (simp add: parse_eval)
  have "(25::int) < 2 ^ 30"
    by simp
  with parseBNC_sentinel_below [OF u] p
  have "parseBNC (str ''n/a'') = 2 ^ 30 \<and> parseBNC (str '' 25'') < parseBNC (str ''n/a'')"
    by fastforce
  with u p show ?thesis by blast
qed

text \<open>
  C4. The claim: every raw frequency that is empty, zero or not an integer gets one
  sentinel rank, above any rank, so that the record sorts after every record with a valid
  positive rank. The doc comment of \<^verbatim>\<open>parseBNC\<close> says the same (such values count as the
  maximum and sort last). The sentinel of the code is \<^verbatim>\<open>1 << 30\<close>, and
  \<^verbatim>\<open>"2000000000"\<close> is a valid positive rank that \<^verbatim>\<open>strconv.Atoi\<close> accepts: the record
  with the empty frequency does not sort after it.
\<close>

theorem parseBNC_sentinel_not_largest:
  "unrankedRaw (str '''') \<and> parseBNC (str '''') = 2 ^ 30
   \<and> parsesAs (str ''2000000000'') 2000000000
   \<and> parseBNC (str ''2000000000'') = 2000000000
   \<and> parseBNC (str '''') < parseBNC (str ''2000000000'')"
  by (simp add: parse_eval)

text \<open>
  Negative integers, value by value: a raw frequency whose trimmed text is a negative
  integer \<open>n\<close> is parsed to \<open>n\<close> itself, which is below the value of every positive
  integer and below the sentinel. Such a raw frequency is any text made of white space, a
  minus sign, one or more digits with a value of at most \<open>2 ^ 63\<close>, and white space.
\<close>

lemma parseBNC_negative_value:
  assumes "parsesAs raw n" and "n < 0"
  shows "parseBNC raw = n
       \<and> (\<forall>other m. parsesAs other m \<and> 0 < m \<longrightarrow> parseBNC raw < parseBNC other)
       \<and> (\<forall>other. unrankedRaw other \<longrightarrow> parseBNC raw < parseBNC other)"
proof -
  have r: "parseBNC raw = n"
    using assms by (simp add: parseBNC_parsesAs)
  have pos: "parseBNC raw < parseBNC other" if "parsesAs other m \<and> 0 < m" for other m
  proof -
    from that have "parseBNC other = m" by (simp add: parseBNC_parsesAs)
    with that r assms(2) show ?thesis by simp
  qed
  have unr: "parseBNC raw < parseBNC other" if "unrankedRaw other" for other
    using that r assms(2) by (simp add: parseBNC_unranked)
  from r pos unr show ?thesis by blast
qed

lemma trimBoth_body:
  assumes "list_all ws lead" and "list_all ws trail" and "body \<noteq> []"
    and "\<not> ws (hd body)" and "\<not> ws (last body)"
  shows "trimBoth ws (lead @ body @ trail) = body"
proof -
  obtain b bs where b: "body = b # bs"
    using assms(3) by (cases body) auto
  have 1: "dropWhile ws (lead @ body @ trail) = body @ trail"
    using assms(1,4) b by (simp add: dropWhile_append list_all_iff)
  have "hd (rev body) = last body"
    using assms(3) by (simp add: hd_rev)
  moreover obtain c cs where c: "rev body = c # cs"
    using assms(3) by (cases "rev body") auto
  ultimately have "\<not> ws c"
    using assms(5) by simp
  then have "dropWhile ws (rev body) = rev body"
    using c by simp
  then have 2: "dropWhile ws (rev trail @ rev body) = rev body"
    using assms(2) by (simp add: dropWhile_append list_all_iff)
  show ?thesis
    by (simp add: trimBoth_def 1 2)
qed

lemma isDigit_not_space: "isDigit r \<Longrightarrow> \<not> isSpace r"
  by (auto simp: isDigit_def isSpace_def)

lemma Atoi_negative_literal:
  assumes "ds \<noteq> []" and "list_all isDigit ds" and "digitsValue 0 ds \<le> 2 ^ 63"
  shows "Atoi (0x2D # ds) = Inr (- int (digitsValue 0 ds))"
  using assms by (simp add: Atoi_def Let_def)

lemma parsesAs_negative_literal:
  assumes "list_all isSpace lead" and "list_all isSpace trail"
    and "ds \<noteq> []" and "list_all isDigit ds" and "digitsValue 0 ds \<le> 2 ^ 63"
  shows "parsesAs (lead @ [0x2D] @ ds @ trail) (- int (digitsValue 0 ds))"
proof -
  have "last (0x2D # ds) = last ds"
    using assms(3) by simp
  moreover have "isDigit (last ds)"
    using assms(3,4) by (simp add: list_all_iff)
  ultimately have l: "\<not> isSpace (last (0x2D # ds))"
    by (simp add: isDigit_not_space)
  have h: "\<not> isSpace (hd (0x2D # ds))"
    by (simp add: isSpace_def)
  have "trimBoth isSpace (lead @ (0x2D # ds) @ trail) = 0x2D # ds"
    using assms(1,2) h l by (intro trimBoth_body) simp_all
  then have "TrimSpace (lead @ [0x2D] @ ds @ trail) = 0x2D # ds"
    by (simp add: TrimSpace_def)
  then show ?thesis
    using Atoi_negative_literal [OF assms(3,4,5)] by (simp add: parsesAs_def)
qed

lemma parseBNC_negative_example:
  "parsesAs (str '' -7 '') (- 7) \<and> parseBNC (str '' -7 '') = - 7
   \<and> parseBNC ([0x3000] @ str ''-12'' @ [0x09]) = - 12
   \<and> parseBNC (str ''- 7'') = 2 ^ 30"
  by (simp add: parse_eval)

section \<open>Properties of the gloss extractor\<close>

declare matches.simps(4) [simp del] ReplaceAllString.simps [simp del] Split.simps [simp del]
  splitOn.simps [simp del]

lemma star_class_Nil: "matches (Star (Class p)) [] = [[]]"
  by (simp add: matches.simps(4))

lemma star_class_Cons:
  "matches (Star (Class p)) (c # cs) = (if p c then matches (Star (Class p)) cs @ [c # cs] else [c # cs])"
  by (simp add: matches.simps(4))

lemma star_class_hd: "\<exists>rest. matches (Star (Class p)) s = dropWhile p s # rest"
  by (induction s) (auto simp add: star_class_Cons star_class_Nil)

lemma star_then_close:
  "matches (Concat (Star (Class (\<lambda>r. r \<noteq> close))) (Class (\<lambda>r. r = close))) s =
     (case spanEnd close s of None \<Rightarrow> [] | Some rest \<Rightarrow> [rest])"
  by (induction s)
     (auto simp add: star_class_Cons star_class_Nil split: option.splits)

lemma matches_bracketRegex_Nil: "matches bracketRegex [] = []"
  by (simp add: bracketRegex_def)

lemma matches_open:
  "matches (Concat (Class (\<lambda>r. r = opening)) b) (c # cs) = (if c = opening then matches b cs else [])"
  by simp

lemma matches_bracketRegex_Cons:
  "matches bracketRegex (c # cs) =
     (case (if c = 0x5B then spanEnd 0x5D cs else if c = 0x28 then spanEnd 0x29 cs else None) of
        None \<Rightarrow> [] | Some rest \<Rightarrow> [rest])"
proof -
  have "matches bracketRegex (c # cs) =
          (if c = 0x5B then matches (Concat (Star (Class (\<lambda>r. r \<noteq> 0x5D))) (Class (\<lambda>r. r = 0x5D))) cs else [])
        @ (if c = 0x28 then matches (Concat (Star (Class (\<lambda>r. r \<noteq> 0x29))) (Class (\<lambda>r. r = 0x29))) cs else [])"
    by (simp only: bracketRegex_def matches.simps(3) matches_open)
  also have "\<dots> = (case (if c = 0x5B then spanEnd 0x5D cs else if c = 0x28 then spanEnd 0x29 cs else None) of
        None \<Rightarrow> [] | Some rest \<Rightarrow> [rest])"
    by (simp only: star_then_close) (simp split: option.splits)
  finally show ?thesis .
qed

lemma spanEnd_length: "spanEnd close s = Some rest \<Longrightarrow> length rest < length s"
  by (induction s) (auto split: if_splits)

lemma spanEnd_length': "Some rest = spanEnd close s \<Longrightarrow> length rest < Suc (length s)"
  using spanEnd_length [of close s rest] by simp

lemma matches_bracket_length: "r \<in> set (matches bracketRegex s) \<Longrightarrow> length r < length s"
  by (cases s) (auto simp: matches_bracketRegex_Nil matches_bracketRegex_Cons
      split: option.splits if_splits dest!: spanEnd_length')

lemma findMatch_shorter:
  assumes ne: "\<And>s r. r \<in> set (matches re s) \<Longrightarrow> length r < length s"
  shows "findMatch re s = Some (pre, post) \<Longrightarrow> length post < length s"
proof (induction s arbitrary: pre)
  case Nil
  then show ?case using ne [of _ "[]"] by (auto split: list.splits)
next
  case (Cons c cs)
  show ?case
  proof (cases "matches re (c # cs)")
    case Nil
    with Cons.prems obtain pre' where "findMatch re cs = Some (pre', post)"
      by auto
    then have "length post < length cs" by (rule Cons.IH)
    then show ?thesis by simp
  next
    case (Cons r rs)
    with Cons.prems have "post = r" by simp
    then show ?thesis using ne [of r "c # cs"] Cons by simp
  qed
qed

lemma ReplaceAll_Nil:
  assumes ne: "\<And>s r. r \<in> set (matches re s) \<Longrightarrow> length r < length s"
  shows "ReplaceAllString re [] repl = []"
  using ne [of _ "[]"] by (subst ReplaceAllString.simps) (auto split: list.splits)

lemma ReplaceAll_skip:
  assumes ne: "\<And>s r. r \<in> set (matches re s) \<Longrightarrow> length r < length s"
    and m: "matches re (c # cs) = []"
  shows "ReplaceAllString re (c # cs) repl = c # ReplaceAllString re cs repl"
proof (cases "findMatch re cs")
  case None
  then show ?thesis
    using m by (simp add: ReplaceAllString.simps [of re "c # cs"] ReplaceAllString.simps [of re cs])
next
  case (Some pp)
  obtain pre post where pp: "pp = (pre, post)" by (cases pp)
  have "length post < length cs"
    using findMatch_shorter [OF ne] Some pp by blast
  then show ?thesis
    using m Some pp by (simp add: ReplaceAllString.simps [of re "c # cs"] ReplaceAllString.simps [of re cs])
qed

lemma ReplaceAll_hit:
  assumes ne: "\<And>s r. r \<in> set (matches re s) \<Longrightarrow> length r < length s"
    and m: "matches re (c # cs) = r # rs"
  shows "ReplaceAllString re (c # cs) repl = repl @ ReplaceAllString re r repl"
proof -
  have "length r < length (c # cs)"
    using ne [of r "c # cs"] m by simp
  then show ?thesis
    using m by (simp add: ReplaceAllString.simps [of re "c # cs"])
qed

lemma ReplaceAll_bracketRegex: "ReplaceAllString bracketRegex s [] = stripSpans s"
proof (induction "length s" arbitrary: s rule: less_induct)
  case less
  show ?case
  proof (cases s)
    case Nil
    then show ?thesis
      by (simp add: ReplaceAll_Nil [of bracketRegex, OF matches_bracket_length])
  next
    case (Cons c cs)
    let ?sp = "if c = 0x5B then spanEnd 0x5D cs else if c = 0x28 then spanEnd 0x29 cs else None"
    show ?thesis
    proof (cases ?sp)
      case None
      then have m: "matches bracketRegex (c # cs) = []"
        by (simp add: matches_bracketRegex_Cons)
      have "ReplaceAllString bracketRegex cs [] = stripSpans cs"
        using less Cons by simp
      then show ?thesis
        using None Cons ReplaceAll_skip [of bracketRegex, OF matches_bracket_length m]
        by simp
    next
      case (Some rest)
      then have m: "matches bracketRegex (c # cs) = [rest]"
        by (simp add: matches_bracketRegex_Cons)
      have l: "length rest < length (c # cs)"
        using Some by (auto split: if_splits dest!: spanEnd_length)
      then have "ReplaceAllString bracketRegex rest [] = stripSpans rest"
        using less Cons by simp
      then show ?thesis
        using Some Cons ReplaceAll_hit [of bracketRegex, OF matches_bracket_length m]
        by simp
    qed
  qed
qed

lemma matches_class_then_Nil: "matches (Concat (Class p) b) [] = []"
  by simp

lemma matches_class_then:
  "matches (Concat (Class p) b) (c # cs) = (if p c then matches b cs else [])"
  by simp

lemma separators_class: "separators = Plus (Class (isSeparator perlSpace))"
  by (simp add: separators_def isSeparator_def [abs_def])

lemma matches_separators_Nil: "matches separators [] = []"
  by (simp only: separators_class Plus_def matches_class_then_Nil)

lemma matches_separators_Cons:
  "\<exists>rest. matches separators (c # cs) =
     (if isSeparator perlSpace c then dropWhile (isSeparator perlSpace) cs # rest else [])"
  using star_class_hd [of "isSeparator perlSpace" cs]
  by (auto simp only: separators_class Plus_def matches_class_then split: if_splits)

lemma star_class_le: "x \<in> set (matches (Star (Class p)) t) \<Longrightarrow> length x \<le> length t"
proof (induction t)
  case Nil
  then have "x \<in> set [[]]" by (simp only: star_class_Nil)
  then show ?case by simp
next
  case (Cons c cs)
  show ?case
  proof (cases "p c")
    case True
    with Cons.prems have "x \<in> set (matches (Star (Class p)) cs @ [c # cs])"
      by (simp only: star_class_Cons if_True)
    then have "x \<in> set (matches (Star (Class p)) cs) \<or> x = c # cs"
      by auto
    then show ?thesis using Cons.IH by auto
  next
    case False
    with Cons.prems have "x \<in> set [c # cs]"
      by (simp only: star_class_Cons if_False)
    then show ?thesis by simp
  qed
qed

lemma matches_separators_length: "r \<in> set (matches separators s) \<Longrightarrow> length r < length s"
proof (cases s)
  case Nil
  assume "r \<in> set (matches separators s)"
  with Nil have "r \<in> set []" by (simp only: matches_separators_Nil)
  then show ?thesis by simp
next
  case (Cons c cs)
  assume a: "r \<in> set (matches separators s)"
  show ?thesis
  proof (cases "isSeparator perlSpace c")
    case True
    with a Cons have "r \<in> set (matches (Star (Class (isSeparator perlSpace))) cs)"
      by (simp only: separators_class Plus_def matches_class_then if_True)
    then have "length r \<le> length cs" by (rule star_class_le)
    then show ?thesis using Cons by simp
  next
    case False
    with a Cons have "r \<in> set []"
      by (simp only: separators_class Plus_def matches_class_then if_False)
    then show ?thesis by simp
  qed
qed

lemma Split_Nil:
  assumes ne: "\<And>s r. r \<in> set (matches re s) \<Longrightarrow> length r < length s"
  shows "Split re [] = [[]]"
  using ne [of _ "[]"] by (subst Split.simps) (auto split: list.splits)

lemma Split_hit:
  assumes ne: "\<And>s r. r \<in> set (matches re s) \<Longrightarrow> length r < length s"
    and m: "matches re (c # cs) = r # rs"
  shows "Split re (c # cs) = [] # Split re r"
proof -
  have "length r < length (c # cs)"
    using ne [of r "c # cs"] m by simp
  then show ?thesis
    using m by (simp add: Split.simps [of re "c # cs"])
qed

lemma Split_skip:
  assumes ne: "\<And>s r. r \<in> set (matches re s) \<Longrightarrow> length r < length s"
    and m: "matches re (c # cs) = []"
  shows "Split re (c # cs) = (c # hd (Split re cs)) # tl (Split re cs)"
proof (cases "findMatch re cs")
  case None
  then show ?thesis
    using m by (simp add: Split.simps [of re "c # cs"] Split.simps [of re cs])
next
  case (Some pp)
  obtain pre post where pp: "pp = (pre, post)" by (cases pp)
  have "length post < length cs"
    using findMatch_shorter [OF ne] Some pp by blast
  then show ?thesis
    using m Some pp by (simp add: Split.simps [of re "c # cs"] Split.simps [of re cs])
qed

lemma splitOn_Nil: "splitOn sep [] = [[]]"
  by (simp add: splitOn.simps)

lemma splitOn_hit: "sep c \<Longrightarrow> splitOn sep (c # cs) = [] # splitOn sep (dropWhile sep cs)"
  by (simp add: splitOn.simps [of sep "c # cs"])

lemma splitOn_skip:
  "\<not> sep c \<Longrightarrow> splitOn sep (c # cs) = (c # hd (splitOn sep cs)) # tl (splitOn sep cs)"
  by (cases "dropWhile (\<lambda>r. \<not> sep r) cs")
     (simp_all add: splitOn.simps [of sep "c # cs"] splitOn.simps [of sep cs]
        del: dropWhile_eq_Nil_conv)

lemma Split_separators: "Split separators s = splitOn (isSeparator perlSpace) s"
proof (induction "length s" arbitrary: s rule: less_induct)
  case less
  show ?case
  proof (cases s)
    case Nil
    then show ?thesis
      by (simp add: Split_Nil [of separators, OF matches_separators_length] splitOn_Nil)
  next
    case (Cons c cs)
    obtain rest where m: "matches separators (c # cs) =
        (if isSeparator perlSpace c then dropWhile (isSeparator perlSpace) cs # rest else [])"
      using matches_separators_Cons by blast
    show ?thesis
    proof (cases "isSeparator perlSpace c")
      case True
      with m have m': "matches separators (c # cs) = dropWhile (isSeparator perlSpace) cs # rest"
        by simp
      have "length (dropWhile (isSeparator perlSpace) cs) < length s"
        using Cons by (simp add: le_imp_less_Suc length_dropWhile_le)
      then have "Split separators (dropWhile (isSeparator perlSpace) cs) =
                 splitOn (isSeparator perlSpace) (dropWhile (isSeparator perlSpace) cs)"
        by (rule less)
      then show ?thesis
        using True Cons Split_hit [of separators, OF matches_separators_length m']
        by (simp add: splitOn_hit)
    next
      case False
      with m have m': "matches separators (c # cs) = []"
        by simp
      have "Split separators cs = splitOn (isSeparator perlSpace) cs"
        using less Cons by simp
      then show ?thesis
        using False Cons Split_skip [of separators, OF matches_separators_length m']
        by (simp add: splitOn_skip)
    qed
  qed
qed

lemma isAllChinese_iff:
  "isAllChinese han text \<longleftrightarrow> text \<noteq> [] \<and> (\<forall>r \<in> set text. han r \<or> r = 0xB7 \<or> r = 0x2014)"
proof -
  have "allChineseRunes han t \<longleftrightarrow> (\<forall>r \<in> set t. han r \<or> r = 0xB7 \<or> r = 0x2014)" for t
    by (induction t) auto
  then show ?thesis by (simp add: isAllChinese_def)
qed

lemma keepChinese_filter:
  "keepChinese han parts =
     filter (\<lambda>f. f \<noteq> [] \<and> (\<forall>r \<in> set f. han r \<or> r = 0xB7 \<or> r = 0x2014)) (map TrimSpace parts)"
  by (induction parts) (simp_all add: Let_def isAllChinese_iff)

lemmas gloss_eval =
  extractChineseWords_def glossFragments_def bracketRegex_def separators_def Plus_def perlSpace_def
  isSeparator_def isAllChinese_def TrimSpace_def trimBoth_def isSpace_def unicodeHan_def inRange_def
  matches.simps(4) ReplaceAllString.simps Split.simps splitOn.simps Let_def

text \<open>
  C5 (as stated). With one class of whitespace for both the splitting and the trimming the
  extractor is not the pipeline of the claim. If the class is Unicode white space, the
  ideographic space U+3000 between U+4F60 and U+597D splits the text into two glosses,
  while the program yields none (its pattern splits on tab, line feed, form feed, carriage
  return and space only). If the class is that of the pattern, a leading U+3000 is not
  trimmed and the fragment is dropped, while the program trims it and yields U+4F60.
\<close>

theorem extractChineseWords_whitespace_differs:
  "extractChineseWords unicodeHan [0x4F60, 0x3000, 0x597D] = []
   \<and> glossFragments isSpace isSpace unicodeHan [0x4F60, 0x3000, 0x597D] = [[0x4F60], [0x597D]]
   \<and> extractChineseWords unicodeHan [0x3000, 0x4F60] = [[0x4F60]]
   \<and> glossFragments perlSpace perlSpace unicodeHan [0x3000, 0x4F60] = []"
  by (simp add: gloss_eval)

text \<open>
  C5 (amended). For every translation and every table of ideographs, the extractor yields
  the result of: removing each span from an opening square or round bracket to the nearest
  closing bracket of its kind; splitting on the commas U+002C, U+FF0C, U+3001, the
  semicolons U+003B, U+FF1B and runs of tab, line feed, form feed, carriage return and
  space; trimming Unicode white space from both ends of each fragment; keeping, in order and
  with duplicates, the fragments that are not empty and consist of ideographs, U+00B7 and
  U+2014.
\<close>

theorem extractChineseWords_refines:
  "extractChineseWords han translation = glossFragments perlSpace isSpace han translation"
  by (simp add: extractChineseWords_def glossFragments_def Let_def ReplaceAll_bracketRegex
      Split_separators keepChinese_filter TrimSpace_def [abs_def])

theorem extractChineseWords_refines_witness:
  "extractChineseWords unicodeHan
     [0x5B, 0x8BA1, 0x5D, 0x20, 0x6587, 0x4EF6, 0x2C, 0x20, 0x6863, 0x6848, 0xFF1B,
      0x28, 0x65E7, 0x29, 0x6587, 0x4EF6, 0x20, 0x61]
   = [[0x6587, 0x4EF6], [0x6863, 0x6848], [0x6587, 0x4EF6]]
   \<and> glossFragments perlSpace isSpace unicodeHan
     [0x5B, 0x8BA1, 0x5D, 0x20, 0x6587, 0x4EF6, 0x2C, 0x20, 0x6863, 0x6848, 0xFF1B,
      0x28, 0x65E7, 0x29, 0x6587, 0x4EF6, 0x20, 0x61]
   = [[0x6587, 0x4EF6], [0x6863, 0x6848], [0x6587, 0x4EF6]]"
proof -
  have "glossFragments perlSpace isSpace unicodeHan
     [0x5B, 0x8BA1, 0x5D, 0x20, 0x6587, 0x4EF6, 0x2C, 0x20, 0x6863, 0x6848, 0xFF1B,
      0x28, 0x65E7, 0x29, 0x6587, 0x4EF6, 0x20, 0x61]
   = [[0x6587, 0x4EF6], [0x6863, 0x6848], [0x6587, 0x4EF6]]"
    by (simp add: gloss_eval)
  then show ?thesis
    by (simp only: extractChineseWords_refines [of unicodeHan] simp_thms)
qed

section \<open>Properties of the reverse index\<close>

lemma addTranslation_lookup:
  "lookupPair (addTranslation ew tr cm g') g w =
     (if g' = g \<and> ew = w \<and> lookupPair cm g w = None then Some tr else lookupPair cm g w)"
  by (auto simp: lookupPair_def addTranslation_def Let_def split: option.splits)

lemma foldl_addTranslation_lookup:
  "lookupPair (foldl (addTranslation ew tr) cm gs) g w =
     (if g \<in> set gs \<and> ew = w \<and> lookupPair cm g w = None then Some tr else lookupPair cm g w)"
  by (induction gs arbitrary: cm) (auto simp: addTranslation_lookup)

lemma addRecord_lookup:
  "lookupPair (addRecord han cm r) g w =
     (if observes han g w r \<and> lookupPair cm g w = None then Some (r ! 3) else lookupPair cm g w)"
  by (auto simp: addRecord_def Let_def foldl_addTranslation_lookup observes_def)

lemma foldl_addRecord_lookup:
  "lookupPair (foldl (addRecord han) cm recs) g w =
     (case lookupPair cm g w of Some t \<Rightarrow> Some t | None \<Rightarrow> firstTranslation han recs g w)"
  by (induction recs arbitrary: cm) (auto simp: addRecord_lookup firstTranslation_def split: option.splits)

lemma buildChineseMap_lookup:
  "lookupPair (buildChineseMap han recs) g w = firstTranslation han recs g w"
proof -
  have "lookupPair Map.empty g w = None"
    by (simp add: lookupPair_def)
  then show ?thesis
    by (simp add: buildChineseMap_def foldl_addRecord_lookup)
qed

lemma addTranslation_dom: "dom (addTranslation ew tr cm g) = insert g (dom cm)"
  by (auto simp: addTranslation_def Let_def split: option.splits if_splits)

lemma foldl_addTranslation_dom: "dom (foldl (addTranslation ew tr) cm gs) = dom cm \<union> set gs"
  by (induction gs arbitrary: cm) (auto simp: addTranslation_dom)

lemma addRecord_dom: "dom (addRecord han cm r) = dom cm \<union> set (extractChineseWords han (r ! 3))"
  by (simp add: addRecord_def Let_def foldl_addTranslation_dom)

lemma foldl_addRecord_dom:
  "dom (foldl (addRecord han) cm recs) = dom cm \<union> (\<Union>r \<in> set recs. set (extractChineseWords han (r ! 3)))"
  by (induction recs arbitrary: cm) (auto simp: addRecord_dom)

lemma buildChineseMap_dom:
  "dom (buildChineseMap han recs) = (\<Union>r \<in> set recs. set (extractChineseWords han (r ! 3)))"
  by (simp add: buildChineseMap_def foldl_addRecord_dom)

lemma extractChineseWords_chinese:
  "g \<in> set (extractChineseWords han t) \<Longrightarrow> g \<noteq> [] \<and> (\<forall>r \<in> set g. han r \<or> r = 0xB7 \<or> r = 0x2014)"
  by (simp add: extractChineseWords_def Let_def keepChinese_filter)

lemma foldl_addBnc:
  "foldl addBnc bm recs w =
     (case bm w of Some b \<Rightarrow> Some b | None \<Rightarrow> frequencyRank recs w)"
  by (induction recs arbitrary: bm) (auto simp: addBnc_def Let_def frequencyRank_def split: option.splits)

lemma buildBncMap_rank: "buildBncMap recs w = frequencyRank recs w"
  by (simp add: buildBncMap_def foldl_addBnc)

lemma firstTranslation_ranked:
  "firstTranslation han recs g w = Some t \<Longrightarrow> \<exists>b. frequencyRank recs w = Some b"
proof -
  assume "firstTranslation han recs g w = Some t"
  then obtain r where "find (observes han g w) recs = Some r"
    by (auto simp: firstTranslation_def)
  then have "r \<in> set recs \<and> r ! 0 = w"
    by (auto simp: find_Some_iff observes_def)
  then have "find (\<lambda>record. record ! 0 = w) recs \<noteq> None"
    by (auto simp: find_None_iff)
  then show ?thesis
    by (auto simp: frequencyRank_def)
qed

lemma engListOf_member:
  "e \<in> set (engListOf bm kvs) \<longleftrightarrow>
     (info_word e, info_def e) \<in> set kvs
     \<and> info_bnc e = (case bm (info_word e) of Some b \<Rightarrow> b | None \<Rightarrow> 2 ^ 30)"
proof (cases e)
  case (fields w t b)
  have "e \<in> set (engListOf bm kvs) \<longleftrightarrow>
          (\<exists>kv \<in> set kvs. e = \<lparr>info_word = fst kv, info_def = snd kv,
              info_bnc = (case bm (fst kv) of Some b \<Rightarrow> b | None \<Rightarrow> 2 ^ 30)\<rparr>)"
    by (auto simp: engListOf_def image_iff split_beta)
  also have "\<dots> \<longleftrightarrow> (w, t) \<in> set kvs \<and> b = (case bm w of Some b \<Rightarrow> b | None \<Rightarrow> 2 ^ 30)"
    using fields by force
  finally show ?thesis
    using fields by simp
qed

lemma engListOf_pairs: "map (\<lambda>e. (info_word e, info_def e)) (engListOf bm kvs) = kvs"
  by (induction kvs) (auto simp: engListOf_def)

lemma engListOf_of_pairs:
  "\<forall>e \<in> set ys. info_bnc e = (case bm (info_word e) of Some b \<Rightarrow> b | None \<Rightarrow> 2 ^ 30)
   \<Longrightarrow> engListOf bm (map (\<lambda>e. (info_word e, info_def e)) ys) = ys"
  by (induction ys) (auto simp: engListOf_def)

lemma rangeOver_lookup: "rangeOver m kvs \<Longrightarrow> (k, v) \<in> set kvs \<longleftrightarrow> m k = Some v"
  by (auto simp: rangeOver_def)

lemma rangeOver_perm:
  assumes "rangeOver m kvs" and "mset kvs' = mset kvs"
  shows "rangeOver m kvs'"
proof -
  from assms(2) have "mset (map fst kvs') = mset (map fst kvs)"
    by (metis mset_map)
  with assms(1) have d: "distinct (map fst kvs')"
    by (metis rangeOver_def mset_eq_imp_distinct_iff)
  from assms(2) have "set kvs' = set kvs"
    by (rule mset_eq_setD)
  with d assms(1) have "map_of kvs' = map_of kvs"
    using map_of_inject_set [of kvs' kvs] by (simp add: rangeOver_def)
  with d assms(1) show ?thesis
    by (simp add: rangeOver_def)
qed

lemma rowWritten_iff:
  "rowWritten han recs g kvs ys row \<longleftrightarrow>
     (\<exists>engMap. buildChineseMap han recs g = Some engMap \<and> rangeOver engMap kvs
        \<and> mset ys = mset (engListOf (buildBncMap recs) kvs)
        \<and> sorted_wrt (\<lambda>a b. info_bnc a \<le> info_bnc b) ys
        \<and> row = Join (map entry ys) [0x0A])"
  by (auto simp: rowWritten_def sortSliceResult_def not_less split: option.splits)

lemma rowWritten_member:
  assumes "rowWritten han recs g kvs ys row"
  shows "e \<in> set ys \<longleftrightarrow>
           firstTranslation han recs g (info_word e) = Some (info_def e)
           \<and> frequencyRank recs (info_word e) = Some (info_bnc e)"
proof -
  from assms obtain engMap where m: "buildChineseMap han recs g = Some engMap"
    and r: "rangeOver engMap kvs"
    and p: "mset ys = mset (engListOf (buildBncMap recs) kvs)"
    by (auto simp: rowWritten_iff)
  have look: "engMap w = firstTranslation han recs g w" for w
    using buildChineseMap_lookup [of han recs g w] m by (simp add: lookupPair_def)
  have "e \<in> set ys \<longleftrightarrow> e \<in> set (engListOf (buildBncMap recs) kvs)"
    using p by (metis mset_eq_setD)
  also have "\<dots> \<longleftrightarrow> firstTranslation han recs g (info_word e) = Some (info_def e)
      \<and> info_bnc e = (case frequencyRank recs (info_word e) of Some b \<Rightarrow> b | None \<Rightarrow> 2 ^ 30)"
    by (simp add: engListOf_member rangeOver_lookup [OF r] look buildBncMap_rank)
  also have "\<dots> \<longleftrightarrow> firstTranslation han recs g (info_word e) = Some (info_def e)
      \<and> frequencyRank recs (info_word e) = Some (info_bnc e)"
    using firstTranslation_ranked [of han recs g "info_word e" "info_def e"] by auto
  finally show ?thesis .
qed

lemma strict_by_rank:
  "sorted_wrt (\<lambda>a b. info_bnc a \<le> info_bnc b) ys \<Longrightarrow> distinct (map info_bnc ys)
   \<Longrightarrow> sorted_wrt (\<lambda>a b. info_bnc a < info_bnc b) ys"
proof -
  assume "sorted_wrt (\<lambda>a b. info_bnc a \<le> info_bnc b) ys" and d: "distinct (map info_bnc ys)"
  then have "sorted (map info_bnc ys)"
    by (simp add: sorted_wrt_map)
  with d have "sorted_wrt (<) (map info_bnc ys)"
    by (simp add: strict_sorted_iff)
  then show ?thesis
    by (simp add: sorted_wrt_map)
qed

lemma frequencyRank_first:
  "find (\<lambda>record. record ! 0 = w) recs = Some r \<Longrightarrow> frequencyRank recs w = Some (parseBNC (r ! 8))"
  by (simp add: frequencyRank_def)

lemma rowWritten_rank:
  assumes "rowWritten han recs g kvs ys row" and "i < length ys"
    and "find (\<lambda>record. record ! 0 = info_word (ys ! i)) recs = Some r"
  shows "info_bnc (ys ! i) = parseBNC (r ! 8)"
proof -
  have "ys ! i \<in> set ys"
    using assms(2) by simp
  then have "frequencyRank recs (info_word (ys ! i)) = Some (info_bnc (ys ! i))"
    using rowWritten_member [OF assms(1)] by blast
  with frequencyRank_first [OF assms(3)] show ?thesis by simp
qed

lemmas reverse_eval =
  gloss_eval str_def Atoi_def isDigit_def parseBNC_def buildChineseMap_def addRecord_def
  addTranslation_def buildBncMap_def addBnc_def rangeOver_def engListOf_def sortSliceResult_def
  entry_def rowWritten_def rec13_def corpus2_def corpus3_def corpusTwice_def corpusUnranked_def
  corpusNegative_def corpusNegativeFirst_def corpusDistinct_def unrankedRaw_def parsesAs_def
  observedAt_def observes_def firstTranslation_def frequencyRank_def lookupPair_def

text \<open>
  C6. For every gloss and source word, the translation stored in \<^verbatim>\<open>chineseMap\<close> is the
  translation of the first record of the corpus that observes the pair (none if no record
  does), whatever records follow; the entries of the row written for a gloss are exactly
  the source words observed with it, each with that first translation.
\<close>

theorem first_write_wins:
  "lookupPair (buildChineseMap han allRecords) chWord englishWord
     = firstTranslation han allRecords chWord englishWord
   \<and> (rowWritten han allRecords chWord kvs engList englishWords \<longrightarrow>
        (\<forall>e \<in> set engList. firstTranslation han allRecords chWord (info_word e) = Some (info_def e))
        \<and> (\<forall>w t. firstTranslation han allRecords chWord w = Some t \<longrightarrow>
                  (\<exists>e \<in> set engList. info_word e = w \<and> info_def e = t))
        \<and> englishWords = Join (map entry engList) [0x0A])"
proof -
  have 1: "lookupPair (buildChineseMap han allRecords) chWord englishWord
     = firstTranslation han allRecords chWord englishWord"
    by (rule buildChineseMap_lookup)
  have 2: "\<forall>e \<in> set engList. firstTranslation han allRecords chWord (info_word e) = Some (info_def e)"
    if "rowWritten han allRecords chWord kvs engList englishWords"
    using rowWritten_member [OF that] by blast
  have 3: "\<exists>e \<in> set engList. info_word e = w \<and> info_def e = t"
    if rw: "rowWritten han allRecords chWord kvs engList englishWords"
      and ft: "firstTranslation han allRecords chWord w = Some t" for w t
  proof -
    from firstTranslation_ranked [OF ft] obtain b where b: "frequencyRank allRecords w = Some b"
      by blast
    let ?e = "\<lparr>info_word = w, info_def = t, info_bnc = b\<rparr>"
    have "?e \<in> set engList"
      using rowWritten_member [OF rw, of ?e] ft b by simp
    then show ?thesis
      by (intro bexI [of _ ?e]) simp_all
  qed
  have 4: "englishWords = Join (map entry engList) [0x0A]"
    if "rowWritten han allRecords chWord kvs engList englishWords"
    using that by (auto simp: rowWritten_iff)
  from 1 2 3 4 show ?thesis by blast
qed

theorem first_write_wins_witness:
  "rowWritten unicodeHan corpusTwice [0x597D]
     [(str ''a'', [0x597D])]
     [\<lparr>info_word = str ''a'', info_def = [0x597D], info_bnc = 5\<rparr>]
     (str ''a'' @ [0xFF08, 0x597D, 0xFF09])
   \<and> observes unicodeHan [0x597D] (str ''a'') (corpusTwice ! 0)
   \<and> corpusTwice ! 0 ! 3 = [0x597D]
   \<and> observes unicodeHan [0x597D] (str ''a'') (corpusTwice ! 1)
   \<and> corpusTwice ! 1 ! 3 = [0x597D, 0x2C, 0x7F8E]
   \<and> firstTranslation unicodeHan corpusTwice [0x597D] (str ''a'') = Some [0x597D]
   \<and> lookupPair (buildChineseMap unicodeHan corpusTwice) [0x597D] (str ''a'') = Some [0x597D]"
proof -
  have rw: "rowWritten unicodeHan corpusTwice [0x597D]
     [(str ''a'', [0x597D])]
     [\<lparr>info_word = str ''a'', info_def = [0x597D], info_bnc = 5\<rparr>]
     (str ''a'' @ [0xFF08, 0x597D, 0xFF09])"
    by (simp add: reverse_eval)
  have ob: "observes unicodeHan [0x597D] (str ''a'') (corpusTwice ! 0)
      \<and> corpusTwice ! 0 ! 3 = [0x597D]
      \<and> observes unicodeHan [0x597D] (str ''a'') (corpusTwice ! 1)
      \<and> corpusTwice ! 1 ! 3 = [0x597D, 0x2C, 0x7F8E]"
    by (simp add: reverse_eval)
  from first_write_wins [of unicodeHan corpusTwice "[0x597D]" "str ''a''"
      "[(str ''a'', [0x597D])]"
      "[\<lparr>info_word = str ''a'', info_def = [0x597D], info_bnc = 5\<rparr>]"
      "str ''a'' @ [0xFF08, 0x597D, 0xFF09]"] rw
  have "lookupPair (buildChineseMap unicodeHan corpusTwice) [0x597D] (str ''a'')
          = firstTranslation unicodeHan corpusTwice [0x597D] (str ''a'')
      \<and> firstTranslation unicodeHan corpusTwice [0x597D] (str ''a'') = Some [0x597D]"
    by simp
  with rw ob show ?thesis by simp
qed

text \<open>
  C3 (as stated). The gloss U+597D of \<open>corpusUnranked\<close> has three source words: one of
  rank 5 and two without a rank (frequency \<^verbatim>\<open>0\<close> and empty), which both get \<open>2 ^ 30\<close>.
  The candidates have two distinct ranks, and the ranks of the segments written are 5,
  \<open>2 ^ 30\<close>, \<open>2 ^ 30\<close>: not strictly ascending.
\<close>

theorem ranked_not_strictly_ascending:
  "rowWritten unicodeHan corpusUnranked [0x597D]
     [(str ''c'', [0x597D]), (str ''b'', [0x597D]), (str ''a'', [0x597D])]
     [\<lparr>info_word = str ''a'', info_def = [0x597D], info_bnc = 5\<rparr>,
      \<lparr>info_word = str ''b'', info_def = [0x597D], info_bnc = 2 ^ 30\<rparr>,
      \<lparr>info_word = str ''c'', info_def = [0x597D], info_bnc = 2 ^ 30\<rparr>]
     (str ''a'' @ [0xFF08, 0x597D, 0xFF09, 0x0A] @ str ''b'' @ [0xFF08, 0x597D, 0xFF09, 0x0A]
      @ str ''c'' @ [0xFF08, 0x597D, 0xFF09])
   \<and> frequencyRank corpusUnranked (str ''a'') = Some 5
   \<and> frequencyRank corpusUnranked (str ''b'') = Some (2 ^ 30)
   \<and> frequencyRank corpusUnranked (str ''c'') = Some (2 ^ 30)
   \<and> \<not> sorted_wrt (<) (map info_bnc
       [\<lparr>info_word = str ''a'', info_def = [0x597D], info_bnc = 5\<rparr>,
        \<lparr>info_word = str ''b'', info_def = [0x597D], info_bnc = 2 ^ 30\<rparr>,
        \<lparr>info_word = str ''c'', info_def = [0x597D], info_bnc = 2 ^ 30\<rparr>])"
  by (simp add: reverse_eval)

text \<open>
  C3 (amended). In every row written for a gloss, each segment carries the FrequencyRank of
  its source word and the segments are in ascending order of rank: a segment is never
  followed by one of a smaller rank, so of two segments with different ranks the one with
  the smaller rank comes first; when the ranks of the candidates are pairwise distinct the
  order is strictly ascending.
\<close>

theorem ranked_ascending:
  assumes "rowWritten han allRecords chWord kvs engList englishWords"
  shows "(\<forall>e \<in> set engList. frequencyRank allRecords (info_word e) = Some (info_bnc e))
       \<and> sorted_wrt (\<lambda>a b. info_bnc a \<le> info_bnc b) engList
       \<and> (\<forall>i j. i < j \<and> j < length engList \<and> info_bnc (engList ! i) \<noteq> info_bnc (engList ! j)
             \<longrightarrow> info_bnc (engList ! i) < info_bnc (engList ! j))
       \<and> (distinct (map info_bnc engList) \<longrightarrow> sorted_wrt (\<lambda>a b. info_bnc a < info_bnc b) engList)
       \<and> englishWords = Join (map entry engList) [0x0A]"
proof -
  have r: "\<forall>e \<in> set engList. frequencyRank allRecords (info_word e) = Some (info_bnc e)"
    using rowWritten_member [OF assms] by blast
  have s: "sorted_wrt (\<lambda>a b. info_bnc a \<le> info_bnc b) engList"
    and j: "englishWords = Join (map entry engList) [0x0A]"
    using assms by (auto simp: rowWritten_iff)
  have n: "info_bnc (engList ! i) < info_bnc (engList ! j)"
    if "i < j \<and> j < length engList \<and> info_bnc (engList ! i) \<noteq> info_bnc (engList ! j)" for i j
  proof -
    from that sorted_wrt_nth_less [OF s, of i j]
    have "info_bnc (engList ! i) \<le> info_bnc (engList ! j)"
      by simp
    with that show ?thesis by simp
  qed
  have d: "sorted_wrt (\<lambda>a b. info_bnc a < info_bnc b) engList" if "distinct (map info_bnc engList)"
    using s that by (rule strict_by_rank)
  from r s n d j show ?thesis by blast
qed

theorem ranked_ascending_witness:
  "rowWritten unicodeHan corpus3 [0x597D]
     [(str ''c'', [0x597D, 0x2C, 0x7F8E]), (str ''b'', [0x597D]), (str ''a'', [0x597D])]
     [\<lparr>info_word = str ''a'', info_def = [0x597D], info_bnc = 5\<rparr>,
      \<lparr>info_word = str ''b'', info_def = [0x597D], info_bnc = 5\<rparr>,
      \<lparr>info_word = str ''c'', info_def = [0x597D, 0x2C, 0x7F8E], info_bnc = 7\<rparr>]
     (str ''a'' @ [0xFF08, 0x597D, 0xFF09, 0x0A] @ str ''b'' @ [0xFF08, 0x597D, 0xFF09, 0x0A]
      @ str ''c'' @ [0xFF08, 0x597D, 0x2C, 0x7F8E, 0xFF09])
   \<and> frequencyRank corpus3 (str ''a'') = Some 5
   \<and> frequencyRank corpus3 (str ''b'') = Some 5
   \<and> frequencyRank corpus3 (str ''c'') = Some 7
   \<and> sorted_wrt (\<lambda>a b. info_bnc a \<le> info_bnc b)
       [\<lparr>info_word = str ''a'', info_def = [0x597D], info_bnc = 5\<rparr>,
        \<lparr>info_word = str ''b'', info_def = [0x597D], info_bnc = 5\<rparr>,
        \<lparr>info_word = str ''c'', info_def = [0x597D, 0x2C, 0x7F8E], info_bnc = 7\<rparr>]
   \<and> rowWritten unicodeHan corpusDistinct [0x597D]
     [(str ''c'', [0x597D]), (str ''b'', [0x597D]), (str ''a'', [0x597D])]
     [\<lparr>info_word = str ''b'', info_def = [0x597D], info_bnc = 3\<rparr>,
      \<lparr>info_word = str ''c'', info_def = [0x597D], info_bnc = 7\<rparr>,
      \<lparr>info_word = str ''a'', info_def = [0x597D], info_bnc = 9\<rparr>]
     (str ''b'' @ [0xFF08, 0x597D, 0xFF09, 0x0A] @ str ''c'' @ [0xFF08, 0x597D, 0xFF09, 0x0A]
      @ str ''a'' @ [0xFF08, 0x597D, 0xFF09])
   \<and> frequencyRank corpusDistinct (str ''b'') = Some 3
   \<and> frequencyRank corpusDistinct (str ''c'') = Some 7
   \<and> frequencyRank corpusDistinct (str ''a'') = Some 9
   \<and> sorted_wrt (\<lambda>a b. info_bnc a < info_bnc b)
       [\<lparr>info_word = str ''b'', info_def = [0x597D], info_bnc = 3\<rparr>,
        \<lparr>info_word = str ''c'', info_def = [0x597D], info_bnc = 7\<rparr>,
        \<lparr>info_word = str ''a'', info_def = [0x597D], info_bnc = 9\<rparr>]"
proof -
  let ?t = "[\<lparr>info_word = str ''a'', info_def = [0x597D], info_bnc = 5\<rparr>,
      \<lparr>info_word = str ''b'', info_def = [0x597D], info_bnc = 5\<rparr>,
      \<lparr>info_word = str ''c'', info_def = [0x597D, 0x2C, 0x7F8E], info_bnc = 7\<rparr>]"
  let ?d = "[\<lparr>info_word = str ''b'', info_def = [0x597D], info_bnc = 3\<rparr>,
      \<lparr>info_word = str ''c'', info_def = [0x597D], info_bnc = 7\<rparr>,
      \<lparr>info_word = str ''a'', info_def = [0x597D], info_bnc = 9\<rparr>]"
  have rt: "rowWritten unicodeHan corpus3 [0x597D]
     [(str ''c'', [0x597D, 0x2C, 0x7F8E]), (str ''b'', [0x597D]), (str ''a'', [0x597D])] ?t
     (str ''a'' @ [0xFF08, 0x597D, 0xFF09, 0x0A] @ str ''b'' @ [0xFF08, 0x597D, 0xFF09, 0x0A]
      @ str ''c'' @ [0xFF08, 0x597D, 0x2C, 0x7F8E, 0xFF09])"
    by (simp add: reverse_eval)
  have rd: "rowWritten unicodeHan corpusDistinct [0x597D]
     [(str ''c'', [0x597D]), (str ''b'', [0x597D]), (str ''a'', [0x597D])] ?d
     (str ''b'' @ [0xFF08, 0x597D, 0xFF09, 0x0A] @ str ''c'' @ [0xFF08, 0x597D, 0xFF09, 0x0A]
      @ str ''a'' @ [0xFF08, 0x597D, 0xFF09])"
    by (simp add: reverse_eval)
  from ranked_ascending [OF rt]
  have "(\<forall>e \<in> set ?t. frequencyRank corpus3 (info_word e) = Some (info_bnc e))
      \<and> sorted_wrt (\<lambda>a b. info_bnc a \<le> info_bnc b) ?t"
    by blast
  then have ft: "frequencyRank corpus3 (str ''a'') = Some 5
      \<and> frequencyRank corpus3 (str ''b'') = Some 5
      \<and> frequencyRank corpus3 (str ''c'') = Some 7
      \<and> sorted_wrt (\<lambda>a b. info_bnc a \<le> info_bnc b) ?t"
    by simp
  have dd: "distinct (map info_bnc ?d)"
    by simp
  from ranked_ascending [OF rd] dd
  have "(\<forall>e \<in> set ?d. frequencyRank corpusDistinct (info_word e) = Some (info_bnc e))
      \<and> sorted_wrt (\<lambda>a b. info_bnc a < info_bnc b) ?d"
    by blast
  then have fd: "frequencyRank corpusDistinct (str ''b'') = Some 3
      \<and> frequencyRank corpusDistinct (str ''c'') = Some 7
      \<and> frequencyRank corpusDistinct (str ''a'') = Some 9
      \<and> sorted_wrt (\<lambda>a b. info_bnc a < info_bnc b) ?d"
    by simp
  from rt rd ft fd show ?thesis by blast
qed

text \<open>
  C2 (as stated). In \<open>corpus2\<close> the words \<^verbatim>\<open>a\<close> and \<^verbatim>\<open>b\<close> have the gloss U+597D and
  the same rank 5, and \<^verbatim>\<open>a\<close> is observed first. The loop over the map may visit
  \<^verbatim>\<open>b\<close> first; the sort has nothing to exchange (\<^verbatim>\<open>less\<close> holds in neither
  direction), and the row written has \<^verbatim>\<open>b\<close> before \<^verbatim>\<open>a\<close>.
\<close>

theorem tie_order_not_first_observed:
  "rowWritten unicodeHan corpus2 [0x597D]
     [(str ''b'', [0x597D]), (str ''a'', [0x597D])]
     [\<lparr>info_word = str ''b'', info_def = [0x597D], info_bnc = 5\<rparr>,
      \<lparr>info_word = str ''a'', info_def = [0x597D], info_bnc = 5\<rparr>]
     (str ''b'' @ [0xFF08, 0x597D, 0xFF09, 0x0A] @ str ''a'' @ [0xFF08, 0x597D, 0xFF09])
   \<and> observedAt unicodeHan corpus2 [0x597D] (str ''a'')
       < observedAt unicodeHan corpus2 [0x597D] (str ''b'')"
  by (simp add: reverse_eval)

text \<open>
  C2 (amended). The order of source words of equal rank is not fixed by the corpus: for a
  gloss of the map, the lists the loop may write, under what Go promises of the iteration
  over a map and of \<^verbatim>\<open>sort.Slice\<close>, are exactly the arrangements of the gloss's candidates
  (each source word once, with its stored translation and its rank) in ascending order of
  rank. First-observation order is one of them, and so is every other order of words that
  share a rank.
\<close>

theorem tie_order_unspecified:
  assumes "buildChineseMap han allRecords chWord = Some engMap"
  shows "(\<exists>kvs. rowWritten han allRecords chWord kvs engList (Join (map entry engList) [0x0A]))
     \<longleftrightarrow> rangeOver engMap (map (\<lambda>e. (info_word e, info_def e)) engList)
         \<and> (\<forall>e \<in> set engList. frequencyRank allRecords (info_word e) = Some (info_bnc e))
         \<and> sorted_wrt (\<lambda>a b. info_bnc a \<le> info_bnc b) engList"
proof
  assume "\<exists>kvs. rowWritten han allRecords chWord kvs engList (Join (map entry engList) [0x0A])"
  then obtain kvs where rw: "rowWritten han allRecords chWord kvs engList (Join (map entry engList) [0x0A])"
    by blast
  then have r: "rangeOver engMap kvs"
    and p: "mset engList = mset (engListOf (buildBncMap allRecords) kvs)"
    and s: "sorted_wrt (\<lambda>a b. info_bnc a \<le> info_bnc b) engList"
    using assms by (auto simp: rowWritten_iff)
  from p have "mset (map (\<lambda>e. (info_word e, info_def e)) engList)
             = mset (map (\<lambda>e. (info_word e, info_def e)) (engListOf (buildBncMap allRecords) kvs))"
    by (metis mset_map)
  then have "mset (map (\<lambda>e. (info_word e, info_def e)) engList) = mset kvs"
    by (simp only: engListOf_pairs)
  with r have "rangeOver engMap (map (\<lambda>e. (info_word e, info_def e)) engList)"
    by (rule rangeOver_perm)
  moreover have "\<forall>e \<in> set engList. frequencyRank allRecords (info_word e) = Some (info_bnc e)"
    using rowWritten_member [OF rw] by blast
  ultimately show "rangeOver engMap (map (\<lambda>e. (info_word e, info_def e)) engList)
         \<and> (\<forall>e \<in> set engList. frequencyRank allRecords (info_word e) = Some (info_bnc e))
         \<and> sorted_wrt (\<lambda>a b. info_bnc a \<le> info_bnc b) engList"
    using s by blast
next
  assume a: "rangeOver engMap (map (\<lambda>e. (info_word e, info_def e)) engList)
         \<and> (\<forall>e \<in> set engList. frequencyRank allRecords (info_word e) = Some (info_bnc e))
         \<and> sorted_wrt (\<lambda>a b. info_bnc a \<le> info_bnc b) engList"
  let ?kvs = "map (\<lambda>e. (info_word e, info_def e)) engList"
  from a have "\<forall>e \<in> set engList. info_bnc e =
      (case buildBncMap allRecords (info_word e) of Some b \<Rightarrow> b | None \<Rightarrow> 2 ^ 30)"
    by (simp add: buildBncMap_rank)
  then have "engListOf (buildBncMap allRecords) ?kvs = engList"
    by (rule engListOf_of_pairs)
  with a assms have "rowWritten han allRecords chWord ?kvs engList (Join (map entry engList) [0x0A])"
    by (simp add: rowWritten_iff)
  then show "\<exists>kvs. rowWritten han allRecords chWord kvs engList (Join (map entry engList) [0x0A])"
    by blast
qed

theorem tie_order_unspecified_witness:
  "buildChineseMap unicodeHan corpus2 [0x597D]
     = Some [str ''a'' \<mapsto> [0x597D], str ''b'' \<mapsto> [0x597D]]
   \<and> (\<exists>kvs. rowWritten unicodeHan corpus2 [0x597D] kvs
        [\<lparr>info_word = str ''b'', info_def = [0x597D], info_bnc = 5\<rparr>,
         \<lparr>info_word = str ''a'', info_def = [0x597D], info_bnc = 5\<rparr>]
        (Join (map entry
          [\<lparr>info_word = str ''b'', info_def = [0x597D], info_bnc = 5\<rparr>,
           \<lparr>info_word = str ''a'', info_def = [0x597D], info_bnc = 5\<rparr>]) [0x0A]))
   \<and> (\<exists>kvs. rowWritten unicodeHan corpus2 [0x597D] kvs
        [\<lparr>info_word = str ''a'', info_def = [0x597D], info_bnc = 5\<rparr>,
         \<lparr>info_word = str ''b'', info_def = [0x597D], info_bnc = 5\<rparr>]
        (Join (map entry
          [\<lparr>info_word = str ''a'', info_def = [0x597D], info_bnc = 5\<rparr>,
           \<lparr>info_word = str ''b'', info_def = [0x597D], info_bnc = 5\<rparr>]) [0x0A]))"
proof -
  have m: "buildChineseMap unicodeHan corpus2 [0x597D]
     = Some [str ''a'' \<mapsto> [0x597D], str ''b'' \<mapsto> [0x597D]]"
    by (simp add: reverse_eval)
  have ba: "rangeOver [str ''a'' \<mapsto> [0x597D], str ''b'' \<mapsto> [0x597D]]
        (map (\<lambda>e. (info_word e, info_def e))
          [\<lparr>info_word = str ''b'', info_def = [0x597D], info_bnc = 5\<rparr>,
           \<lparr>info_word = str ''a'', info_def = [0x597D], info_bnc = 5\<rparr>])
      \<and> (\<forall>e \<in> set [\<lparr>info_word = str ''b'', info_def = [0x597D], info_bnc = 5\<rparr>,
           \<lparr>info_word = str ''a'', info_def = [0x597D], info_bnc = 5\<rparr>].
            frequencyRank corpus2 (info_word e) = Some (info_bnc e))
      \<and> sorted_wrt (\<lambda>a b. info_bnc a \<le> info_bnc b)
          [\<lparr>info_word = str ''b'', info_def = [0x597D], info_bnc = 5\<rparr>,
           \<lparr>info_word = str ''a'', info_def = [0x597D], info_bnc = 5\<rparr>]"
    by (simp add: reverse_eval)
  have ab: "rangeOver [str ''a'' \<mapsto> [0x597D], str ''b'' \<mapsto> [0x597D]]
        (map (\<lambda>e. (info_word e, info_def e))
          [\<lparr>info_word = str ''a'', info_def = [0x597D], info_bnc = 5\<rparr>,
           \<lparr>info_word = str ''b'', info_def = [0x597D], info_bnc = 5\<rparr>])
      \<and> (\<forall>e \<in> set [\<lparr>info_word = str ''a'', info_def = [0x597D], info_bnc = 5\<rparr>,
           \<lparr>info_word = str ''b'', info_def = [0x597D], info_bnc = 5\<rparr>].
            frequencyRank corpus2 (info_word e) = Some (info_bnc e))
      \<and> sorted_wrt (\<lambda>a b. info_bnc a \<le> info_bnc b)
          [\<lparr>info_word = str ''a'', info_def = [0x597D], info_bnc = 5\<rparr>,
           \<lparr>info_word = str ''b'', info_def = [0x597D], info_bnc = 5\<rparr>]"
    by (simp add: reverse_eval fun_upd_twist)
  from tie_order_unspecified [OF m, THEN iffD2, OF ba] tie_order_unspecified [OF m, THEN iffD2, OF ab] m
  show ?thesis by blast
qed

text \<open>
  C9 (as stated). A record with a negative frequency does not always rank before the
  records with a positive rank: the rank of a source word is parsed from the first record
  of the word. In \<open>corpusNegative\<close> the record of \<^verbatim>\<open>a\<close> with the gloss U+597D has the
  frequency \<^verbatim>\<open>-7\<close>, which \<open>parseBNC\<close> returns as \<open>- 7\<close>, but the first record of
  \<^verbatim>\<open>a\<close> has the frequency 5: in the row of the gloss, \<^verbatim>\<open>b\<close> with the positive rank 3
  is written before \<^verbatim>\<open>a\<close>.
\<close>

theorem negative_record_not_first:
  "rowWritten unicodeHan corpusNegative [0x597D]
     [(str ''b'', [0x597D]), (str ''a'', [0x597D])]
     [\<lparr>info_word = str ''b'', info_def = [0x597D], info_bnc = 3\<rparr>,
      \<lparr>info_word = str ''a'', info_def = [0x597D], info_bnc = 5\<rparr>]
     (str ''b'' @ [0xFF08, 0x597D, 0xFF09, 0x0A] @ str ''a'' @ [0xFF08, 0x597D, 0xFF09])
   \<and> corpusNegative ! 1 ! 0 = str ''a''
   \<and> observes unicodeHan [0x597D] (str ''a'') (corpusNegative ! 1)
   \<and> parsesAs (corpusNegative ! 1 ! 8) (- 7)
   \<and> parseBNC (corpusNegative ! 1 ! 8) = - 7
   \<and> corpusNegative ! 2 ! 0 = str ''b''
   \<and> observes unicodeHan [0x597D] (str ''b'') (corpusNegative ! 2)
   \<and> parsesAs (corpusNegative ! 2 ! 8) 3
   \<and> frequencyRank corpusNegative (str ''a'') = Some 5
   \<and> frequencyRank corpusNegative (str ''b'') = Some 3"
  by (simp add: reverse_eval)

text \<open>
  C9 (amended). Every raw frequency whose trimmed text is a negative integer \<open>n\<close> is
  parsed to \<open>n\<close> itself, not to the sentinel. A source word whose first record in the
  corpus has such a frequency has the FrequencyRank \<open>n\<close>, and in every row written its
  segment comes strictly before the segment of every source word whose first record has a
  positive integer as frequency or is unranked.
\<close>

theorem negative_rank_first:
  assumes "rowWritten han allRecords chWord kvs engList englishWords"
    and "i < length engList" and "j < length engList"
    and "find (\<lambda>record. record ! 0 = info_word (engList ! i)) allRecords = Some r"
    and "find (\<lambda>record. record ! 0 = info_word (engList ! j)) allRecords = Some r'"
    and "parsesAs (r ! 8) n" and "n < 0"
    and "unrankedRaw (r' ! 8) \<or> (\<exists>m. parsesAs (r' ! 8) m \<and> 0 < m)"
  shows "(\<forall>raw k. parsesAs raw k \<and> k < 0 \<longrightarrow> parseBNC raw = k)
       \<and> frequencyRank allRecords (info_word (engList ! i)) = Some n
       \<and> info_bnc (engList ! i) = n
       \<and> i < j"
proof -
  have v: "\<forall>raw k. parsesAs raw k \<and> k < 0 \<longrightarrow> parseBNC raw = k"
    by (simp add: parseBNC_parsesAs)
  have p: "parseBNC (r ! 8) = n"
    using assms(6,7) by (simp add: parseBNC_parsesAs)
  have f: "frequencyRank allRecords (info_word (engList ! i)) = Some n"
    using frequencyRank_first [OF assms(4)] p by simp
  have bi: "info_bnc (engList ! i) = n"
    using rowWritten_rank [OF assms(1,2,4)] p by simp
  have "0 < parseBNC (r' ! 8)"
    using assms(8) by (auto simp: parseBNC_unranked parseBNC_parsesAs)
  then have bj: "0 < info_bnc (engList ! j)"
    using rowWritten_rank [OF assms(1,3,5)] by simp
  have s: "sorted_wrt (\<lambda>a b. info_bnc a \<le> info_bnc b) engList"
    using assms(1) by (auto simp: rowWritten_iff)
  have "i < j"
  proof (rule ccontr)
    assume "\<not> i < j"
    then have "j < i \<or> j = i" by auto
    then show False
    proof
      assume "j < i"
      from sorted_wrt_nth_less [OF s this assms(2)]
      show False using bi bj assms(7) by simp
    next
      assume "j = i"
      then show False using bi bj assms(7) by simp
    qed
  qed
  with v f bi show ?thesis by simp
qed

theorem negative_rank_first_witness:
  "rowWritten unicodeHan corpusNegativeFirst [0x597D]
     [(str ''c'', [0x597D]), (str ''b'', [0x597D]), (str ''a'', [0x597D])]
     [\<lparr>info_word = str ''a'', info_def = [0x597D], info_bnc = - 7\<rparr>,
      \<lparr>info_word = str ''b'', info_def = [0x597D], info_bnc = 3\<rparr>,
      \<lparr>info_word = str ''c'', info_def = [0x597D], info_bnc = 2 ^ 30\<rparr>]
     (str ''a'' @ [0xFF08, 0x597D, 0xFF09, 0x0A] @ str ''b'' @ [0xFF08, 0x597D, 0xFF09, 0x0A]
      @ str ''c'' @ [0xFF08, 0x597D, 0xFF09])
   \<and> parsesAs (str '' -7 '') (- 7)
   \<and> parsesAs (str ''3'') 3
   \<and> unrankedRaw []
   \<and> parseBNC (str '' -7 '') = - 7
   \<and> frequencyRank corpusNegativeFirst (str ''a'') = Some (- 7)"
proof -
  let ?l = "[\<lparr>info_word = str ''a'', info_def = [0x597D], info_bnc = - 7\<rparr>,
      \<lparr>info_word = str ''b'', info_def = [0x597D], info_bnc = 3\<rparr>,
      \<lparr>info_word = str ''c'', info_def = [0x597D], info_bnc = 2 ^ 30\<rparr>]"
  have rw: "rowWritten unicodeHan corpusNegativeFirst [0x597D]
     [(str ''c'', [0x597D]), (str ''b'', [0x597D]), (str ''a'', [0x597D])] ?l
     (str ''a'' @ [0xFF08, 0x597D, 0xFF09, 0x0A] @ str ''b'' @ [0xFF08, 0x597D, 0xFF09, 0x0A]
      @ str ''c'' @ [0xFF08, 0x597D, 0xFF09])"
    by (simp add: reverse_eval)
  have fa: "find (\<lambda>record. record ! 0 = info_word (?l ! 0)) corpusNegativeFirst
        = Some (rec13 (str ''a'') [0x597D] (str '' -7 ''))"
    by (simp add: reverse_eval)
  have fb: "find (\<lambda>record. record ! 0 = info_word (?l ! 1)) corpusNegativeFirst
        = Some (rec13 (str ''b'') [0x597D] (str ''3''))"
    by (simp add: reverse_eval)
  have fc: "find (\<lambda>record. record ! 0 = info_word (?l ! 2)) corpusNegativeFirst
        = Some (rec13 (str ''c'') [0x597D] [])"
    by (simp add: reverse_eval)
  have 3: "parsesAs (str '' -7 '') (- 7) \<and> parsesAs (str ''3'') 3 \<and> unrankedRaw []"
    by (simp add: reverse_eval)
  then have na: "parsesAs (rec13 (str ''a'') [0x597D] (str '' -7 '') ! 8) (- 7)"
    by (simp add: rec13_def)
  have pb: "unrankedRaw (rec13 (str ''b'') [0x597D] (str ''3'') ! 8)
      \<or> (\<exists>m. parsesAs (rec13 (str ''b'') [0x597D] (str ''3'') ! 8) m \<and> 0 < m)"
    using 3 by (intro disjI2 exI [of _ 3]) (simp add: rec13_def)
  have uc: "unrankedRaw (rec13 (str ''c'') [0x597D] [] ! 8)
      \<or> (\<exists>m. parsesAs (rec13 (str ''c'') [0x597D] [] ! 8) m \<and> 0 < m)"
    using 3 by (intro disjI1) (simp add: rec13_def)
  have l: "(0::nat) < length ?l" "(1::nat) < length ?l" "(2::nat) < length ?l"
    by simp_all
  have n: "(- 7 :: int) < 0"
    by simp
  from negative_rank_first [OF rw l(1) l(2) fa fb na n pb] 3 n
  have 1: "parseBNC (str '' -7 '') = - 7
      \<and> frequencyRank corpusNegativeFirst (info_word (?l ! 0)) = Some (- 7)"
    by blast
  from negative_rank_first [OF rw l(1) l(3) fa fc na n uc]
  have 2: "info_bnc (?l ! 0) = - 7 \<and> (0::nat) < 2"
    by blast
  from 1 have "parseBNC (str '' -7 '') = - 7
      \<and> frequencyRank corpusNegativeFirst (str ''a'') = Some (- 7)"
    by simp
  with rw 3 show ?thesis by blast
qed

text \<open>
  C10. A row is written only for a key of \<^verbatim>\<open>chineseMap\<close>; every key of the map is a
  non-empty string of ideographs, U+00B7 and U+2014; and every string the extractor
  returns is of that kind, so it returns no empty string.
\<close>

theorem gloss_keys_chinese:
  "(rowWritten han allRecords chWord kvs engList englishWords \<longrightarrow>
      chWord \<in> dom (buildChineseMap han allRecords))
   \<and> (chWord \<in> dom (buildChineseMap han allRecords) \<longrightarrow>
      chWord \<noteq> [] \<and> (\<forall>r \<in> set chWord. han r \<or> r = 0xB7 \<or> r = 0x2014))
   \<and> (\<forall>g \<in> set (extractChineseWords han translation).
        g \<noteq> [] \<and> (\<forall>r \<in> set g. han r \<or> r = 0xB7 \<or> r = 0x2014))"
proof -
  have 1: "chWord \<in> dom (buildChineseMap han allRecords)"
    if "rowWritten han allRecords chWord kvs engList englishWords"
    using that by (auto simp: rowWritten_iff)
  have 2: "chWord \<noteq> [] \<and> (\<forall>r \<in> set chWord. han r \<or> r = 0xB7 \<or> r = 0x2014)"
    if "chWord \<in> dom (buildChineseMap han allRecords)"
  proof -
    from that obtain rcd where "chWord \<in> set (extractChineseWords han (rcd ! 3))"
      by (auto simp: buildChineseMap_dom)
    then show ?thesis by (rule extractChineseWords_chinese)
  qed
  have 3: "\<forall>g \<in> set (extractChineseWords han translation).
        g \<noteq> [] \<and> (\<forall>r \<in> set g. han r \<or> r = 0xB7 \<or> r = 0x2014)"
    using extractChineseWords_chinese by blast
  from 1 2 3 show ?thesis by blast
qed

theorem gloss_keys_chinese_witness:
  "rowWritten unicodeHan corpus3 [0x7F8E]
     [(str ''c'', [0x597D, 0x2C, 0x7F8E])]
     [\<lparr>info_word = str ''c'', info_def = [0x597D, 0x2C, 0x7F8E], info_bnc = 7\<rparr>]
     (str ''c'' @ [0xFF08, 0x597D, 0x2C, 0x7F8E, 0xFF09])
   \<and> [0x7F8E] \<in> dom (buildChineseMap unicodeHan corpus3)
   \<and> unicodeHan 0x7F8E
   \<and> [0x7F8E] \<in> set (extractChineseWords unicodeHan [0x597D, 0x2C, 0x7F8E])"
proof -
  have rw: "rowWritten unicodeHan corpus3 [0x7F8E]
     [(str ''c'', [0x597D, 0x2C, 0x7F8E])]
     [\<lparr>info_word = str ''c'', info_def = [0x597D, 0x2C, 0x7F8E], info_bnc = 7\<rparr>]
     (str ''c'' @ [0xFF08, 0x597D, 0x2C, 0x7F8E, 0xFF09])"
    by (simp add: reverse_eval)
  have ex: "[0x7F8E] \<in> set (extractChineseWords unicodeHan [0x597D, 0x2C, 0x7F8E])"
    by (simp add: gloss_eval)
  from gloss_keys_chinese [of unicodeHan corpus3 "[0x7F8E]" _ _ _ "[0x597D, 0x2C, 0x7F8E]"] rw
  have "[0x7F8E] \<in> dom (buildChineseMap unicodeHan corpus3)
      \<and> (\<forall>r \<in> set [0x7F8E]. unicodeHan r \<or> r = 0xB7 \<or> r = 0x2014)"
    by blast
  with rw ex show ?thesis by simp
qed

section \<open>Properties of the corpus\<close>

lemma readAllEnglish_filter:
  "readAllEnglish reads = filter (\<lambda>record. 13 \<le> length record) (parsedRows reads)"
  by (induction reads rule: readAllEnglish.induct) (simp_all add: parsedRows_def)

lemma readAllChinese_filter:
  "readAllChinese reads =
     filter (\<lambda>record. 13 \<le> length record \<and> record ! 3 \<noteq> []) (parsedRows reads)"
  by (induction reads rule: readAllChinese.induct) (simp_all add: parsedRows_def)

text \<open>
  C8 (as stated). A row of 13 fields whose translation is empty is read without error and
  kept by \<^verbatim>\<open>CreateEnglishDB\<close>, but it is not in the corpus of \<^verbatim>\<open>CreateChineseDB\<close>.
\<close>

theorem chinese_corpus_drops_empty_translation:
  "length (rec13 (str ''a'') [] (str ''5'')) = 13
   \<and> parsedRows emptyTranslationReads = [rec13 (str ''a'') [] (str ''5'')]
   \<and> readAllEnglish emptyTranslationReads = [rec13 (str ''a'') [] (str ''5'')]
   \<and> readAllChinese emptyTranslationReads = []"
  by (simp add: emptyTranslationReads_def parsedRows_def rec13_def)

text \<open>
  C8 (amended). The corpus of \<^verbatim>\<open>CreateEnglishDB\<close> is the rows parsed without error that
  have 13 fields or more, in file order; the corpus of \<^verbatim>\<open>CreateChineseDB\<close> is those of
  them whose translation (field 3) is not empty. Rows with an error and shorter rows are
  skipped, and no row ends the reading. A row of the forward corpus is stored with its
  word, phonetic, definition, translation and frequency taken from the fields 0, 1, 2, 3
  and 8.
\<close>

theorem corpus_rows:
  "readAllEnglish reads = filter (\<lambda>record. 13 \<le> length record) (parsedRows reads)
   \<and> readAllChinese reads =
       filter (\<lambda>record. 13 \<le> length record \<and> record ! 3 \<noteq> []) (parsedRows reads)
   \<and> (\<forall>record \<in> set (readAllEnglish reads).
         13 \<le> length record
         \<and> insertArgs record =
             \<lparr>col_word = record ! 0, col_phonetic = record ! 1, col_definition = record ! 2,
              col_translation = record ! 3, col_bnc = record ! 8\<rparr>)
   \<and> (\<forall>record \<in> set (readAllChinese reads). 13 \<le> length record \<and> record ! 3 \<noteq> [])"
  by (simp add: readAllEnglish_filter readAllChinese_filter insertArgs_def)

theorem corpus_rows_witness:
  "parsedRows mixedReads
     = [rec13 (str ''a'') [0x597D] (str ''5''), [str ''b'', [], []],
        rec13 (str ''c'') [] (str ''7'')]
   \<and> readAllEnglish mixedReads
       = [rec13 (str ''a'') [0x597D] (str ''5''), rec13 (str ''c'') [] (str ''7'')]
   \<and> readAllChinese mixedReads = [rec13 (str ''a'') [0x597D] (str ''5'')]
   \<and> insertArgs (rec13 (str ''a'') [0x597D] (str ''5''))
       = \<lparr>col_word = str ''a'', col_phonetic = [], col_definition = [],
          col_translation = [0x597D], col_bnc = str ''5''\<rparr>"
proof -
  have p: "parsedRows mixedReads
       = [rec13 (str ''a'') [0x597D] (str ''5''), [str ''b'', [], []],
          rec13 (str ''c'') [] (str ''7'')]"
    by (simp add: mixedReads_def parsedRows_def)
  note c = corpus_rows [of mixedReads]
  from c have e: "readAllEnglish mixedReads
       = [rec13 (str ''a'') [0x597D] (str ''5''), rec13 (str ''c'') [] (str ''7'')]"
    unfolding p by (simp add: rec13_def str_def)
  from c have z: "readAllChinese mixedReads = [rec13 (str ''a'') [0x597D] (str ''5'')]"
    unfolding p by (simp add: rec13_def str_def)
  have "rec13 (str ''a'') [0x597D] (str ''5'') \<in> set (readAllEnglish mixedReads)"
    unfolding e by simp
  with c have "insertArgs (rec13 (str ''a'') [0x597D] (str ''5''))
       = \<lparr>col_word = rec13 (str ''a'') [0x597D] (str ''5'') ! 0,
          col_phonetic = rec13 (str ''a'') [0x597D] (str ''5'') ! 1,
          col_definition = rec13 (str ''a'') [0x597D] (str ''5'') ! 2,
          col_translation = rec13 (str ''a'') [0x597D] (str ''5'') ! 3,
          col_bnc = rec13 (str ''a'') [0x597D] (str ''5'') ! 8\<rparr>"
    by blast
  then have "insertArgs (rec13 (str ''a'') [0x597D] (str ''5''))
       = \<lparr>col_word = str ''a'', col_phonetic = [], col_definition = [],
          col_translation = [0x597D], col_bnc = str ''5''\<rparr>"
    by (simp add: rec13_def)
  with p e z show ?thesis by blast
qed

section \<open>Properties of the search\<close>

lemma scanRows_result:
  assumes "seen = set results" and "distinct results"
  shows "\<exists>new. scanRows rows (results, seen) = (results @ new, set (results @ new))
           \<and> distinct (results @ new) \<and> (\<forall>k \<in> set new. Some k \<in> set rows)
           \<and> length new \<le> length rows"
  using assms
proof (induction rows arbitrary: results seen)
  case Nil
  then show ?case by simp
next
  case (Cons row rows)
  show ?case
  proof (cases row)
    case None
    from Cons.IH [OF Cons.prems] obtain new where
      "scanRows rows (results, seen) = (results @ new, set (results @ new))
       \<and> distinct (results @ new) \<and> (\<forall>k \<in> set new. Some k \<in> set rows)
       \<and> length new \<le> length rows"
      by blast
    with None show ?thesis
      by (intro exI [of _ new]) simp
  next
    case (Some word)
    show ?thesis
    proof (cases "word \<in> seen")
      case True
      from Cons.IH [OF Cons.prems] obtain new where
        "scanRows rows (results, seen) = (results @ new, set (results @ new))
         \<and> distinct (results @ new) \<and> (\<forall>k \<in> set new. Some k \<in> set rows)
         \<and> length new \<le> length rows"
        by blast
      with Some True show ?thesis
        by (intro exI [of _ new]) simp
    next
      case False
      have "insert word seen = set (results @ [word])" and "distinct (results @ [word])"
        using Cons.prems False by auto
      from Cons.IH [OF this] obtain new where n:
        "scanRows rows (results @ [word], insert word seen)
           = ((results @ [word]) @ new, set ((results @ [word]) @ new))
         \<and> distinct ((results @ [word]) @ new) \<and> (\<forall>k \<in> set new. Some k \<in> set rows)
         \<and> length new \<le> length rows"
        by blast
      with Some False show ?thesis
        by (intro exI [of _ "word # new"]) simp
    qed
  qed
qed

lemma runQuery_result:
  assumes "sqlStore db" and "distinct results"
  shows "\<exists>new. runQuery db q n (results, set results) = (results @ new, set (results @ new))
           \<and> distinct (results @ new) \<and> (\<forall>k \<in> set new. satisfies q k) \<and> length new \<le> n"
proof (cases "db q n")
  case None
  with assms(2) show ?thesis
    by (intro exI [of _ "[]"]) (simp add: runQuery_def)
next
  case (Some rows)
  with assms(1) have l: "length rows \<le> n" and s: "\<forall>key. Some key \<in> set rows \<longrightarrow> satisfies q key"
    by (auto simp: sqlStore_def)
  from scanRows_result [OF refl assms(2), of rows] obtain new where
    n: "scanRows rows (results, set results) = (results @ new, set (results @ new))
       \<and> distinct (results @ new) \<and> (\<forall>k \<in> set new. Some k \<in> set rows)
       \<and> length new \<le> length rows"
    by blast
  with l s Some show ?thesis
    by (intro exI [of _ new]) (auto simp: runQuery_def)
qed

lemma searchEnglish_shape:
  assumes "sqlStore db"
  shows "\<exists>r1 r2 r3. searchEnglish db kw = r1 @ r2 @ r3
           \<and> distinct (r1 @ r2 @ r3) \<and> length (r1 @ r2 @ r3) \<le> 100
           \<and> (\<forall>k \<in> set r1. satisfies (Equals kw) k)
           \<and> (\<forall>k \<in> set r2. satisfies (LikeButNot (kw @ [0x25]) kw) k)
           \<and> (\<forall>k \<in> set r3. satisfies (LikeNotLike ([0x25] @ kw @ [0x25]) (kw @ [0x25])) k)"
proof -
  from runQuery_result [OF assms, of "[]" "Equals kw" 100] obtain r1 where
    q1: "runQuery db (Equals kw) 100 ([], {}) = (r1, set r1)"
    and d1: "distinct r1" and s1: "\<forall>k \<in> set r1. satisfies (Equals kw) k" and l1: "length r1 \<le> 100"
    by auto
  show ?thesis
  proof (cases "length r1 \<ge> 100")
    case True
    then have "searchEnglish db kw = r1 @ [] @ []"
      using q1 by (simp add: searchEnglish_def Let_def)
    with d1 s1 l1 show ?thesis
      by (intro exI [of _ r1] exI [of _ "[]"]) simp
  next
    case f1: False
    from runQuery_result [OF assms d1, of "LikeButNot (kw @ [0x25]) kw" "100 - length r1"]
    obtain r2 where
      q2: "runQuery db (LikeButNot (kw @ [0x25]) kw) (100 - length r1) (r1, set r1)
             = (r1 @ r2, set (r1 @ r2))"
      and d2: "distinct (r1 @ r2)" and s2: "\<forall>k \<in> set r2. satisfies (LikeButNot (kw @ [0x25]) kw) k"
      and l2: "length r2 \<le> 100 - length r1"
      by auto
    show ?thesis
    proof (cases "length (r1 @ r2) \<ge> 100")
      case True
      then have "searchEnglish db kw = r1 @ r2 @ []"
        using q1 q2 f1 by (simp add: searchEnglish_def Let_def)
      moreover have "length (r1 @ r2 @ []) \<le> 100"
        using l2 f1 by simp
      ultimately show ?thesis
        using d2 s1 s2 by (intro exI [of _ r1] exI [of _ r2] exI [of _ "[]"]) simp
    next
      case f2: False
      from runQuery_result [OF assms d2,
          of "LikeNotLike ([0x25] @ kw @ [0x25]) (kw @ [0x25])" "100 - length (r1 @ r2)"]
      obtain r3 where
        q3: "runQuery db (LikeNotLike ([0x25] @ kw @ [0x25]) (kw @ [0x25])) (100 - length (r1 @ r2))
               (r1 @ r2, set (r1 @ r2)) = ((r1 @ r2) @ r3, set ((r1 @ r2) @ r3))"
        and d3: "distinct ((r1 @ r2) @ r3)"
        and s3: "\<forall>k \<in> set r3. satisfies (LikeNotLike ([0x25] @ kw @ [0x25]) (kw @ [0x25])) k"
        and l3: "length r3 \<le> 100 - length (r1 @ r2)"
        by auto
      have "searchEnglish db kw = r1 @ r2 @ r3"
        using q1 q2 q3 f1 f2 by (simp add: searchEnglish_def Let_def)
      moreover have "length (r1 @ r2 @ r3) \<le> 100"
        using l3 f2 by simp
      moreover have "distinct (r1 @ r2 @ r3)"
        using d3 by simp
      ultimately show ?thesis
        using s1 s2 s3 by (intro exI [of _ r1] exI [of _ r2] exI [of _ r3]) blast
    qed
  qed
qed

lemma searchChinese_searchEnglish: "searchChinese db kw = searchEnglish db kw"
  by (simp add: searchChinese_def searchEnglish_def)

lemma like_percent: "like [0x25] s"
  by (induction s) auto

lemma like_percent_skip: "like pat s \<Longrightarrow> like (0x25 # pat) s"
  by (cases s) auto

lemma like_percent_more: "like (0x25 # pat) cs \<Longrightarrow> like (0x25 # pat) (c # cs)"
  by simp

lemma like_self: "like (kw @ [0x25]) kw"
proof (induction kw)
  case Nil
  then show ?case by simp
next
  case (Cons p ps)
  show ?case
  proof (cases "p = 0x25")
    case True
    have "like (0x25 # ps @ [0x25]) ps"
      using Cons.IH by (rule like_percent_skip)
    then have "like (0x25 # ps @ [0x25]) (0x25 # ps)"
      by (rule like_percent_more)
    with True show ?thesis by simp
  next
    case False
    with Cons.IH show ?thesis by simp
  qed
qed

lemma like_prefix:
  "noWildcard kw \<Longrightarrow> like (kw @ [0x25]) k \<longleftrightarrow> prefix (foldCase kw) (foldCase k)"
proof (induction kw arbitrary: k)
  case Nil
  then show ?case by (simp add: like_percent foldCase_def)
next
  case (Cons p ps)
  then have nw: "noWildcard ps" and p: "p \<noteq> 0x25" "p \<noteq> 0x5F"
    by (auto simp: noWildcard_def)
  show ?case
  proof (cases k)
    case Nil
    then show ?thesis using p by (simp add: foldCase_def)
  next
    case (Cons c cs)
    then show ?thesis
      using p Cons.IH [OF nw, of cs] by (simp add: foldCase_def)
  qed
qed

lemma like_contains:
  "noWildcard kw \<Longrightarrow> like (0x25 # kw @ [0x25]) k \<longleftrightarrow> sublist (foldCase kw) (foldCase k)"
proof (induction k)
  case Nil
  have "like (kw @ [0x25]) [] \<longleftrightarrow> kw = []"
    using like_prefix [OF Nil, of "[]"] by (simp add: foldCase_def)
  then show ?case by (simp add: foldCase_def)
next
  case (Cons c cs)
  have "like (0x25 # kw @ [0x25]) (c # cs)
        \<longleftrightarrow> like (kw @ [0x25]) (c # cs) \<or> like (0x25 # kw @ [0x25]) cs"
    by simp
  also have "\<dots> \<longleftrightarrow> prefix (foldCase kw) (foldCase (c # cs)) \<or> sublist (foldCase kw) (foldCase cs)"
    using like_prefix [OF Cons.prems] Cons.IH [OF Cons.prems] by simp
  also have "\<dots> \<longleftrightarrow> sublist (foldCase kw) (foldCase (c # cs))"
    by (simp add: foldCase_def sublist_Cons_right)
  finally show ?case .
qed

lemma one_tier_sorted: "\<forall>k \<in> set r. T k = (c::nat) \<Longrightarrow> sorted (map T r)"
  by (induction r) auto

lemma three_tiers_sorted:
  "(\<forall>k \<in> set r1. T k = (0::nat)) \<Longrightarrow> (\<forall>k \<in> set r2. T k = 1) \<Longrightarrow> (\<forall>k \<in> set r3. T k = 2)
   \<Longrightarrow> sorted (map T (r1 @ r2 @ r3))"
proof -
  assume a: "\<forall>k \<in> set r1. T k = 0" and b: "\<forall>k \<in> set r2. T k = 1" and c: "\<forall>k \<in> set r3. T k = 2"
  have "sorted (map T r1)" "sorted (map T r2)" "sorted (map T r3)"
    using a b c by (auto intro: one_tier_sorted)
  then show ?thesis
    using a b c by (auto simp: sorted_append)
qed

text \<open>
  The result of a search is the rows of the first statement, then the new rows of the
  second, then the new rows of the third: it is ordered by the store's own tests.
\<close>

lemma searchEnglish_tiers:
  assumes "sqlStore db"
  shows "distinct (searchEnglish db kw) \<and> length (searchEnglish db kw) \<le> 100
       \<and> sorted (map (storeTier kw) (searchEnglish db kw))
       \<and> (\<forall>k \<in> set (searchEnglish db kw). storeTier kw k \<le> 2)
       \<and> (noWildcard kw \<longrightarrow>
            sorted (map (tierOf foldCase kw) (searchEnglish db kw))
            \<and> (\<forall>k \<in> set (searchEnglish db kw). tierOf foldCase kw k \<le> 2))"
proof -
  from searchEnglish_shape [OF assms, of kw] obtain r1 r2 r3 where
    e: "searchEnglish db kw = r1 @ r2 @ r3"
    and d: "distinct (r1 @ r2 @ r3)" and l: "length (r1 @ r2 @ r3) \<le> 100"
    and s1: "\<forall>k \<in> set r1. satisfies (Equals kw) k"
    and s2: "\<forall>k \<in> set r2. satisfies (LikeButNot (kw @ [0x25]) kw) k"
    and s3: "\<forall>k \<in> set r3. satisfies (LikeNotLike ([0x25] @ kw @ [0x25]) (kw @ [0x25])) k"
    by blast
  have t1: "\<forall>k \<in> set r1. storeTier kw k = 0"
    using s1 by (simp add: storeTier_def)
  have t2: "\<forall>k \<in> set r2. storeTier kw k = 1"
    using s2 by (simp add: storeTier_def)
  have t3: "\<forall>k \<in> set r3. storeTier kw k = 2"
    using s3 like_self [of kw] by (auto simp: storeTier_def)
  have st: "sorted (map (storeTier kw) (r1 @ r2 @ r3))"
    using t1 t2 t3 by (rule three_tiers_sorted)
  have sb: "\<forall>k \<in> set (r1 @ r2 @ r3). storeTier kw k \<le> 2"
    using t1 t2 t3 by auto
  have nw: "sorted (map (tierOf foldCase kw) (r1 @ r2 @ r3))
       \<and> (\<forall>k \<in> set (r1 @ r2 @ r3). tierOf foldCase kw k \<le> 2)" if w: "noWildcard kw"
  proof -
    have u1: "\<forall>k \<in> set r1. tierOf foldCase kw k = 0"
      using s1 by (simp add: tierOf_def)
    have u2: "\<forall>k \<in> set r2. tierOf foldCase kw k = 1"
      using s2 like_prefix [OF w] by (simp add: tierOf_def)
    have u3: "\<forall>k \<in> set r3. tierOf foldCase kw k = 2"
      using s3 like_prefix [OF w] like_contains [OF w] like_self [of kw] by (auto simp: tierOf_def)
    have "sorted (map (tierOf foldCase kw) (r1 @ r2 @ r3))"
      using u1 u2 u3 by (rule three_tiers_sorted)
    moreover have "\<forall>k \<in> set (r1 @ r2 @ r3). tierOf foldCase kw k \<le> 2"
      using u1 u2 u3 by auto
    ultimately show ?thesis by blast
  qed
  from d l st sb nw show ?thesis
    unfolding e by blast
qed

lemma tableStore_sql: "sqlStore (tableStore keys)"
  by (auto simp: sqlStore_def tableStore_def dest: in_set_takeD)

lemmas search_eval = searchEnglish_def searchChinese_def runQuery_def tableStore_def Let_def
  toLowerAscii_def str_def tierOf_def foldCase_def noWildcard_def sublist_code(3)

text \<open>
  C1 (as stated). For the query \<^verbatim>\<open>_\<close> on a table holding \<^verbatim>\<open>A_\<close> and \<^verbatim>\<open>_a\<close>, the
  second statement returns both keys, since \<^verbatim>\<open>_\<close> is a wildcard of \<^verbatim>\<open>LIKE\<close>: the
  result has \<^verbatim>\<open>A_\<close>, which contains the query without starting with it, before
  \<^verbatim>\<open>_a\<close>, which starts with it. For the query \<^verbatim>\<open>a\<close> on a table holding \<^verbatim>\<open>Aa\<close> and
  \<^verbatim>\<open>ab\<close>, the second statement returns both keys, since \<^verbatim>\<open>LIKE\<close> ignores the case of
  ASCII letters: the result has \<^verbatim>\<open>Aa\<close>, which contains \<^verbatim>\<open>a\<close> without starting with
  it, before \<^verbatim>\<open>ab\<close>, which starts with it.
\<close>

theorem search_not_tier_ordered:
  "searchEnglish (tableStore [str ''A_'', str ''_a'']) (str ''_'') = [str ''A_'', str ''_a'']
   \<and> tierOf id (str ''_'') (str ''A_'') = 2 \<and> tierOf id (str ''_'') (str ''_a'') = 1
   \<and> searchEnglish (tableStore [str ''Aa'', str ''ab'']) (str ''a'') = [str ''Aa'', str ''ab'']
   \<and> tierOf id (str ''a'') (str ''Aa'') = 2 \<and> tierOf id (str ''a'') (str ''ab'') = 1"
  by (simp add: search_eval)

text \<open>
  C1 (amended). For every query against either index, whatever rows the store returns
  within the guarantees of the statements, the result contains no key twice and has at
  most 100 keys. For a query without \<^verbatim>\<open>%\<close> and \<^verbatim>\<open>_\<close> it is ordered by the tiers of
  the specification taken without regard to the case of ASCII letters: every key of the
  result equals the query, starts with it or contains it, and each key equal to the query
  precedes each other key that starts with it, which precedes each key that contains it
  without starting with it.
\<close>

theorem search_tiers:
  assumes "sqlStore englishDB" and "sqlStore chineseDB"
  shows "distinct (searchEnglish englishDB query) \<and> length (searchEnglish englishDB query) \<le> 100
       \<and> distinct (searchChinese chineseDB query) \<and> length (searchChinese chineseDB query) \<le> 100
       \<and> (noWildcard query \<longrightarrow>
            sorted (map (tierOf foldCase query) (searchEnglish englishDB query))
            \<and> sorted (map (tierOf foldCase query) (searchChinese chineseDB query))
            \<and> (\<forall>key \<in> set (searchEnglish englishDB query). tierOf foldCase query key \<le> 2)
            \<and> (\<forall>key \<in> set (searchChinese chineseDB query). tierOf foldCase query key \<le> 2))"
  using searchEnglish_tiers [OF assms(1), of query] searchEnglish_tiers [OF assms(2), of query]
  by (simp only: searchChinese_searchEnglish) blast

theorem search_tiers_witness:
  "sqlStore (tableStore [str ''dislike'', str ''likely'', str ''like'', str ''Like'', str ''like''])
   \<and> noWildcard (str ''like'')
   \<and> searchEnglish
        (tableStore [str ''dislike'', str ''likely'', str ''like'', str ''Like'', str ''like''])
        (str ''like'')
       = [str ''like'', str ''likely'', str ''Like'', str ''dislike'']
   \<and> map (tierOf foldCase (str ''like'')) [str ''like'', str ''likely'', str ''Like'', str ''dislike'']
       = [0, 1, 1, 2]
   \<and> distinct (searchEnglish
        (tableStore [str ''dislike'', str ''likely'', str ''like'', str ''Like'', str ''like''])
        (str ''like''))
   \<and> sorted (map (tierOf foldCase (str ''like'')) (searchChinese
        (tableStore [str ''dislike'', str ''likely'', str ''like'', str ''Like'', str ''like''])
        (str ''like'')))"
proof -
  let ?db = "tableStore [str ''dislike'', str ''likely'', str ''like'', str ''Like'', str ''like'']"
  have s: "sqlStore ?db"
    by (rule tableStore_sql)
  have w: "noWildcard (str ''like'')"
    by (simp add: search_eval)
  have r: "searchEnglish ?db (str ''like'') = [str ''like'', str ''likely'', str ''Like'', str ''dislike'']"
    by (simp add: search_eval)
  have t: "map (tierOf foldCase (str ''like'')) [str ''like'', str ''likely'', str ''Like'', str ''dislike'']
       = [0, 1, 1, 2]"
    by (simp add: search_eval)
  from search_tiers [OF s s, of "str ''like''"] w
  have "distinct (searchEnglish ?db (str ''like''))
      \<and> sorted (map (tierOf foldCase (str ''like'')) (searchChinese ?db (str ''like'')))"
    by blast
  with s w r t show ?thesis by blast
qed

section \<open>Properties of the search history\<close>

lemma filter_absent: "w \<notin> set h \<Longrightarrow> filter (\<lambda>x. x \<noteq> w) h = h"
  by (induction h) auto

lemma removeFirst_distinct: "distinct h \<Longrightarrow> removeFirst w h = filter (\<lambda>x. x \<noteq> w) h"
  by (induction h) (auto simp: filter_absent)

lemma removeFirst_length_mem: "w \<in> set h \<Longrightarrow> Suc (length (removeFirst w h)) = length h"
  by (induction h) auto

lemma removeFirst_notin: "w \<notin> set h \<Longrightarrow> removeFirst w h = h"
  by (induction h) auto

lemma addToHistory_filter:
  "distinct h \<Longrightarrow> addToHistory w h = take maxHistorySize (w # filter (\<lambda>x. x \<noteq> w) h)"
  by (simp add: addToHistory_def removeFirst_distinct Let_def)

text \<open>
  C7. \<^verbatim>\<open>addToHistory\<close> keeps the history duplicate-free and of length at most 20, with
  the added key at the front and the other keys behind it in their former order; adding a
  key that is present leaves the length unchanged, and adding an absent key to a full
  history of 20 keeps 20 keys and drops the last (least recently added) one.
\<close>

theorem addToHistory_invariant:
  assumes "historyInv h"
  shows "historyInv (addToHistory w h)
       \<and> addToHistory w h = take maxHistorySize (w # filter (\<lambda>x. x \<noteq> w) h)
       \<and> hd (addToHistory w h) = w
       \<and> (w \<in> set h \<longrightarrow> length (addToHistory w h) = length h)
       \<and> (w \<notin> set h \<and> length h = maxHistorySize \<longrightarrow>
            addToHistory w h = w # butlast h \<and> length (addToHistory w h) = maxHistorySize)"
proof -
  from assms have d: "distinct h" and l: "length h \<le> maxHistorySize"
    by (simp_all add: historyInv_def)
  have eq: "addToHistory w h = take maxHistorySize (w # filter (\<lambda>x. x \<noteq> w) h)"
    using d by (rule addToHistory_filter)
  have "distinct (w # filter (\<lambda>x. x \<noteq> w) h)" using d by simp
  then have "distinct (addToHistory w h)" unfolding eq by (rule distinct_take)
  moreover have "length (addToHistory w h) \<le> maxHistorySize" unfolding eq by simp
  ultimately have inv: "historyInv (addToHistory w h)" by (simp add: historyInv_def)
  have front: "hd (addToHistory w h) = w"
    unfolding eq by (simp add: maxHistorySize_def)
  have present: "length (addToHistory w h) = length h" if "w \<in> set h"
    using removeFirst_length_mem [OF that] l
    by (simp add: addToHistory_def Let_def)
  have full: "addToHistory w h = w # butlast h \<and> length (addToHistory w h) = maxHistorySize"
    if "w \<notin> set h \<and> length h = maxHistorySize"
    using that by (simp add: addToHistory_def removeFirst_notin maxHistorySize_def butlast_conv_take)
  from inv eq front present full show ?thesis by blast
qed

theorem addToHistory_invariant_witness:
  "historyInv [str ''b'', str ''a'']
   \<and> historyInv (addToHistory (str ''a'') [str ''b'', str ''a''])
   \<and> hd (addToHistory (str ''a'') [str ''b'', str ''a'']) = str ''a''
   \<and> length (addToHistory (str ''a'') [str ''b'', str ''a'']) = 2"
proof -
  have h: "historyInv [str ''b'', str ''a'']"
    by (simp add: historyInv_def maxHistorySize_def str_def)
  have m: "str ''a'' \<in> set [str ''b'', str ''a'']"
    by simp
  from addToHistory_invariant [OF h, of "str ''a''"] m
  have "historyInv (addToHistory (str ''a'') [str ''b'', str ''a''])
      \<and> hd (addToHistory (str ''a'') [str ''b'', str ''a'']) = str ''a''
      \<and> length (addToHistory (str ''a'') [str ''b'', str ''a'']) = length [str ''b'', str ''a'']"
    by blast
  with h show ?thesis by simp
qed

end
